theory Spec2Isabelle
  imports Complex_Main
begin

section \<open>Python values and exceptions\<close>

text \<open>
  The two modules of the repository are embedded below: \<^verbatim>\<open>examples/control/control_problem.py\<close>
  (derivative functions of dynamical systems, the wrapper around the integrator, the
  coupling matrices) and \<^verbatim>\<open>glyph/application.py\<close> (the runner of a genetic-programming
  run and the application around it).

  Every exception a modelled function can raise is a value of \<open>pyerror\<close>; a function that can
  raise returns \<open>pyerror + 'a\<close>, with \<open>Inl\<close> the exception. Python floats are modelled by
  the reals: the statements below are about which expression is computed and which exception
  is raised, never about rounding. \<open>DivisionByZero\<close> stands for a numpy division whose
  divisor is zero (numpy reports it as a warning and an infinite or undefined entry).
\<close>

datatype pyerror =
    IndexError | ValueError | AssertionError | RuntimeError | AttributeError
  | ZeroDivisionError | DivisionByZero | KeyError | TypeError | FileNotFoundError
  | NetworkXError

section \<open>control\_problem.py: simple systems\<close>

text \<open>
  \<^verbatim>\<open>harmonic_oscillator(actuator, omega)\<close> returns the closure \<^verbatim>\<open>dy(t, y, *args)\<close>.
  The actuator is called with the components of \<open>y\<close> followed by the extra arguments, so it is
  a function of the list \<open>y @ args\<close>. Reading \<^verbatim>\<open>y[1]\<close> raises IndexError when \<open>y\<close> has fewer
  than two components.
\<close>

definition harmonic_oscillator ::
  "(real list \<Rightarrow> real) \<Rightarrow> real \<Rightarrow> real \<Rightarrow> real list \<Rightarrow> real list \<Rightarrow> pyerror + real list" where
  "harmonic_oscillator actuator omega = (\<lambda>t y args.
     if length y < 2 then Inl IndexError
     else (let dy0 = y ! 1;
               dy1 = - (omega ^ 2) * y ! 0 + actuator (y @ args)
           in Inr [dy0, dy1]))"

section \<open>control\_problem.py: coupled systems\<close>

text \<open>
  One-dimensional numpy arrays are lists. A binary operation on two arrays follows numpy's
  broadcasting: equal lengths work elementwise, an operand of length one (or a scalar) is
  repeated, and any other pair of lengths raises ValueError.
\<close>

definition broadcast2 :: "(real \<Rightarrow> real \<Rightarrow> real) \<Rightarrow> real list \<Rightarrow> real list \<Rightarrow> pyerror + real list" where
  "broadcast2 f xs ys =
     (if length xs = length ys then Inr (map2 f xs ys)
      else if length xs = 1 then Inr (map (f (hd xs)) ys)
      else if length ys = 1 then Inr (map (\<lambda>x. f x (hd ys)) xs)
      else Inl ValueError)"

text \<open>Division of an array by a scalar; a zero divisor is the outcome \<open>DivisionByZero\<close>.\<close>

definition np_div :: "real list \<Rightarrow> real \<Rightarrow> pyerror + real list" where
  "np_div xs d = (if d = 0 then Inl DivisionByZero else Inr (map (\<lambda>x. x / d) xs))"

text \<open>
  The coupling \<open>A\<close> of a coupled system is used as \<^verbatim>\<open>A.dot(y1)\<close>. Its default value is the
  float \<^verbatim>\<open>0.0\<close>, which has no method \<^verbatim>\<open>dot\<close>; a matrix multiplies the vector when every row
  is as long as the vector.
\<close>

datatype coupling = Scalar real | Matrix "real list list"

definition dot :: "coupling \<Rightarrow> real list \<Rightarrow> pyerror + real list" where
  "dot A v =
     (case A of
        Scalar c \<Rightarrow> Inl AttributeError
      | Matrix rows \<Rightarrow>
          if list_all (\<lambda>r. length r = length v) rows
          then Inr (map (\<lambda>r. sum_list (map2 (*) r v)) rows)
          else Inl ValueError)"

text \<open>
  \<^verbatim>\<open>fitzhugh_nagumo(actuator, sensor, a, b, tau, A)\<close>: the check of \<open>tau\<close> runs when the
  system is built; the closure \<open>dy\<close> is returned only afterwards. The actuator returns an array
  (a scalar is an array of length one for broadcasting).
\<close>

definition fitzhugh_nagumo_dy ::
  "(real list \<Rightarrow> real list) \<Rightarrow> (real list \<Rightarrow> real list) \<Rightarrow> real \<Rightarrow> real \<Rightarrow> real \<Rightarrow> coupling
    \<Rightarrow> real \<Rightarrow> real list \<Rightarrow> real list \<Rightarrow> pyerror + real list" where
  "fitzhugh_nagumo_dy actuator sensor a b tau A = (\<lambda>t y args.
     let N = length y div 2;
         y0 = take N y;
         y1 = drop N y
     in case broadcast2 (-) (map2 (-) y0 (map (\<lambda>v. v ^ 3 / 3) y0)) y1 of
          Inl e \<Rightarrow> Inl e
        | Inr dy0 \<Rightarrow>
         (case broadcast2 (-) (map (\<lambda>v. v + a) y0) (map (\<lambda>v. b * v) y1) of
            Inl e \<Rightarrow> Inl e
          | Inr num \<Rightarrow>
           (case np_div num tau of
              Inl e \<Rightarrow> Inl e
            | Inr q \<Rightarrow>
             (case dot A y1 of
                Inl e \<Rightarrow> Inl e
              | Inr c \<Rightarrow>
               (case broadcast2 (+) q c of
                  Inl e \<Rightarrow> Inl e
                | Inr qc \<Rightarrow>
                 (case broadcast2 (+) qc (actuator (sensor y @ args)) of
                    Inl e \<Rightarrow> Inl e
                  | Inr dy1 \<Rightarrow> Inr (dy0 @ dy1)))))))"

definition fitzhugh_nagumo ::
  "(real list \<Rightarrow> real list) \<Rightarrow> (real list \<Rightarrow> real list) \<Rightarrow> real \<Rightarrow> real \<Rightarrow> real \<Rightarrow> coupling
    \<Rightarrow> pyerror + (real \<Rightarrow> real list \<Rightarrow> real list \<Rightarrow> pyerror + real list)" where
  "fitzhugh_nagumo actuator sensor a b tau A =
     (if tau = 0 then Inl RuntimeError
      else Inr (fitzhugh_nagumo_dy actuator sensor a b tau A))"

section \<open>control\_problem.py: coupling matrices\<close>

text \<open>
  A matrix is the list of its rows. The argument \<open>N\<close> is a Python integer; numpy refuses a
  negative dimension with ValueError. All entries of the matrices below are integers of small
  size, which floats represent exactly.
\<close>

definition np_ones :: "int \<Rightarrow> int \<Rightarrow> pyerror + real list list" where
  "np_ones n m =
     (if n < 0 \<or> m < 0 then Inl ValueError
      else Inr (replicate (nat n) (replicate (nat m) 1)))"

definition fill_diagonal :: "real list list \<Rightarrow> real \<Rightarrow> real list list" where
  "fill_diagonal A v = map (\<lambda>i. (A ! i)[i := v]) [0..<length A]"

definition global_coupling :: "int \<Rightarrow> pyerror + real list list" where
  "global_coupling N =
     (case np_ones N N of
        Inl e \<Rightarrow> Inl e
      | Inr A \<Rightarrow> Inr (fill_diagonal A (- 1 * real_of_int (N - 1))))"

definition np_eye :: "int \<Rightarrow> pyerror + real list list" where
  "np_eye n =
     (if n < 0 then Inl ValueError
      else Inr (map (\<lambda>i. map (\<lambda>j. if i = j then 1 else 0) [0..<nat n]) [0..<nat n]))"

text \<open>
  \<^verbatim>\<open>np.kron(A, B)\<close>: every entry of \<open>A\<close> is replaced by that multiple of \<open>B\<close>, so a row of
  \<open>A\<close> gives one row of the result for each row of \<open>B\<close>.
\<close>

definition np_kron :: "real list list \<Rightarrow> real list list \<Rightarrow> real list list" where
  "np_kron A B =
     concat (map (\<lambda>ra. map (\<lambda>rb. concat (map (\<lambda>x. map (\<lambda>y. x * y) rb) ra)) B) A)"

text \<open>
  \<^verbatim>\<open>pairwise_coupling(N)\<close> asserts that \<open>N\<close> is even. \<^verbatim>\<open>int(N / 2)\<close> is \<open>N div 2\<close> for an
  even \<open>N\<close> (the float division is exact below \<open>2 ^ 53\<close>).
\<close>

definition pairwise_coupling :: "int \<Rightarrow> pyerror + real list list" where
  "pairwise_coupling N =
     (if N mod 2 \<noteq> 0 then Inl AssertionError
      else (case np_eye (N div 2) of
              Inl e \<Rightarrow> Inl e
            | Inr E \<Rightarrow> Inr (np_kron E [[- 1, 1], [1, - 1]])))"

text \<open>
  \<^verbatim>\<open>circular_array_coupling(N)\<close> is \<^verbatim>\<open>-1.0 * laplacian_matrix(cycle_graph(N))\<close>. Both
  functions are networkx's, modelled here after its documentation: \<^verbatim>\<open>cycle_graph(N)\<close> has
  the nodes \<open>0, ..., N - 1\<close> and an edge from each node to its cyclic successor (one node
  gives a self-loop, two nodes a single edge); the adjacency matrix of the undirected graph
  has a one wherever an edge joins two nodes in either direction; the Laplacian is the
  diagonal matrix of the adjacency matrix's row sums minus the adjacency matrix; a graph
  without nodes has no Laplacian (NetworkXError).
\<close>

definition cycle_graph :: "int \<Rightarrow> nat \<times> (nat \<times> nat) list" where
  "cycle_graph N = (nat N, map (\<lambda>i. (i, (i + 1) mod nat N)) [0..<nat N])"

definition adjacency_matrix :: "nat \<times> (nat \<times> nat) list \<Rightarrow> real list list" where
  "adjacency_matrix g =
     (case g of (n, es) \<Rightarrow>
        map (\<lambda>i. map (\<lambda>j. if (i, j) \<in> set es \<or> (j, i) \<in> set es then 1 else 0) [0..<n]) [0..<n])"

definition laplacian_matrix :: "nat \<times> (nat \<times> nat) list \<Rightarrow> pyerror + real list list" where
  "laplacian_matrix g =
     (if fst g = 0 then Inl NetworkXError
      else (let A = adjacency_matrix g
            in Inr (map (\<lambda>i. map (\<lambda>j. (if i = j then sum_list (A ! i) else 0) - A ! i ! j)
                              [0..<fst g]) [0..<fst g])))"

definition circular_array_coupling :: "int \<Rightarrow> pyerror + real list list" where
  "circular_array_coupling N =
     (case laplacian_matrix (cycle_graph N) of
        Inl e \<Rightarrow> Inl e
      | Inr L \<Rightarrow> Inr (map (map (\<lambda>v. - 1 * v)) L))"

text \<open>
  The words of the specification about these matrices. The negated Laplacian of the graph
  on the nodes \<open>0, ..., n - 1\<close> in which \<open>adj i j\<close> says that node \<open>j\<close> is a neighbour of
  node \<open>i\<close>: minus the number of the neighbours of a node on the diagonal, a one where two
  nodes are neighbours, a zero elsewhere.
\<close>

definition graph_coupling :: "nat \<Rightarrow> (nat \<Rightarrow> nat \<Rightarrow> bool) \<Rightarrow> real list list" where
  "graph_coupling n adj =
     map (\<lambda>i. map (\<lambda>j. if i = j then - real (length (filter (\<lambda>k. k \<noteq> i \<and> adj i k) [0..<n]))
                         else if adj i j then 1 else 0) [0..<n]) [0..<n]"

text \<open>
  The three topologies: under global coupling every node is the neighbour of every other
  node; under pairwise coupling the nodes \<open>2 k\<close> and \<open>2 k + 1\<close> are each other's only
  neighbour; in the circular array of \<open>n\<close> nodes the neighbours of a node are its cyclic
  successor and its cyclic predecessor.
\<close>

definition all_coupled :: "nat \<Rightarrow> nat \<Rightarrow> bool" where
  "all_coupled i j = (i \<noteq> j)"

definition paired :: "nat \<Rightarrow> nat \<Rightarrow> bool" where
  "paired i j = (i \<noteq> j \<and> i div 2 = j div 2)"

definition ring :: "nat \<Rightarrow> nat \<Rightarrow> nat \<Rightarrow> bool" where
  "ring n i j = (i \<noteq> j \<and> (j = (i + 1) mod n \<or> i = (j + 1) mod n))"

text \<open>
  A node's coupled neighbours, read from a matrix, are the other nodes its row couples it
  to: the columns off the diagonal with a non-zero entry. A negated graph Laplacian is a
  square symmetric matrix whose entries off the diagonal are zero or one, whose rows sum to
  zero and whose diagonal entry is minus the number of coupled neighbours of the row's node.
\<close>

definition coupled_neighbours :: "real list list \<Rightarrow> nat \<Rightarrow> nat" where
  "coupled_neighbours A i = length (filter (\<lambda>j. j \<noteq> i \<and> A ! i ! j \<noteq> 0) [0..<length (A ! i)])"

definition negated_laplacian :: "real list list \<Rightarrow> bool" where
  "negated_laplacian A =
     list_all (\<lambda>i. length (A ! i) = length A \<and> sum_list (A ! i) = 0
                  \<and> A ! i ! i = - real (coupled_neighbours A i)
                  \<and> list_all (\<lambda>j. i = j \<or> ((A ! i ! j = 0 \<or> A ! i ! j = 1) \<and> A ! j ! i = A ! i ! j))
                       [0..<length A])
       [0..<length A]"

text \<open>
  The block-diagonal matrix the specification names for pairwise coupling: nodes \<open>2 k\<close> and
  \<open>2 k + 1\<close> form a block \<open>[[-1, 1], [1, -1]]\<close>, and there is nothing outside the blocks.
\<close>

definition pair_blocks :: "nat \<Rightarrow> real list list" where
  "pair_blocks n =
     map (\<lambda>r. map (\<lambda>c. if r div 2 = c div 2 then (if r = c then - 1 else 1) else 0) [0..<n]) [0..<n]"

section \<open>control\_problem.py: the integrator's wrapper\<close>

text \<open>
  \<^verbatim>\<open>scipy.integrate.ode(f)\<close>, with its integrator set, is a parameter: a solver over states
  \<open>'s\<close> with the four operations the wrapper uses. The derivative \<open>dy\<close>, the extra arguments
  and the integrator's options only reach the wrapper through this object.
\<close>

record 's ode =
  set_initial_value :: "real list \<Rightarrow> real \<Rightarrow> 's"
  ode_integrate :: "'s \<Rightarrow> real \<Rightarrow> 's"
  successful :: "'s \<Rightarrow> bool"
  ode_y :: "'s \<Rightarrow> real list"

text \<open>
  The generator \<^verbatim>\<open>odeint\<close> yields the initial value, then integrates to each further
  abscissa and yields the solver's value there; it returns at the first step after which
  the solver is not successful. Its result is the list of the values it yields. Reading
  \<^verbatim>\<open>x[0]\<close> raises IndexError when there is no abscissa.
\<close>

fun odeint_steps :: "'s ode \<Rightarrow> 's \<Rightarrow> real list \<Rightarrow> real list list" where
  "odeint_steps solver s [] = []"
| "odeint_steps solver s (v # vs) =
     (let s' = ode_integrate solver s v
      in if \<not> successful solver s' then []
         else ode_y solver s' # odeint_steps solver s' vs)"










section \<open>application.py: the runner\<close>

text \<open>
  The runner works on objects of DEAP and of the package's own module \<^verbatim>\<open>gp\<close>, none of which
  is part of the two modules embedded here. They are parameters: the type \<open>'r\<close> of the states
  of Python's random generator, \<open>'i\<close> of individuals, \<open>'h\<close> of halls of fame, \<open>'a\<close> of
  algorithms and \<open>'c\<close> of compiled statistics, with the operations the runner calls on them.
  An operation that draws random numbers takes the state of the global generator and returns
  the new one; the others do not touch it. The assessment runner updates the fitness values
  of the individuals in place: here it returns the assessed population.
\<close>

record ('r, 'i, 'h, 'a, 'c) gp_ops =
  create_population :: "int \<Rightarrow> 'r \<Rightarrow> 'i list \<times> 'r"
  algorithm_factory :: "'a"
  evolve :: "'a \<Rightarrow> 'i list \<Rightarrow> 'r \<Rightarrow> ('i list \<times> 'a) \<times> 'r"
  assessment_runner :: "'i list \<Rightarrow> 'i list"
  pareto_front :: "'h"
  hof_update :: "'h \<Rightarrow> 'i list \<Rightarrow> 'h"
  hof_items :: "'h \<Rightarrow> 'i list"
  fitness_values :: "'i \<Rightarrow> real list"
  stats_compile :: "nat \<Rightarrow> 'i list \<Rightarrow> 'c"
  random_seed :: "int \<Rightarrow> 'r"

text \<open>
  The attributes \<^verbatim>\<open>init\<close> gives the runner. Before \<^verbatim>\<open>init\<close> the runner has none of
  \<^verbatim>\<open>step_count\<close>, \<^verbatim>\<open>population\<close>, \<^verbatim>\<open>algorithm\<close> and \<^verbatim>\<open>mstats\<close>, and reading one raises
  AttributeError (so does \<^verbatim>\<open>logbook.stream\<close> on the placeholder \<^verbatim>\<open>''\<close> the constructor
  stores). The logbook is the list of its records, each the generation and the compiled
  statistics. \<^verbatim>\<open>create_stats(n)\<close> builds a \<^verbatim>\<open>MultiStatistics\<close> with one entry per fitness
  value; it is a dictionary, so an object with no entry is false in a condition.
\<close>

datatype mstatistics = MultiStatistics nat

record ('i, 'h, 'a, 'c) evolution =
  halloffame :: "'h"
  logbook :: "(int \<times> 'c) list"
  mstats :: "mstatistics option"
  step_count :: int
  population :: "'i list"
  algorithm :: "'a"

record ('r, 'i, 'h, 'a, 'c) gp_runner =
  evolution :: "('i, 'h, 'a, 'c) evolution option"
  prev_state :: "'r option"
  tmp_state :: "'r option"

definition create_stats :: "nat \<Rightarrow> mstatistics" where
  "create_stats n = MultiStatistics n"

fun mstats_true :: "mstatistics option \<Rightarrow> bool" where
  "mstats_true None = False"
| "mstats_true (Some (MultiStatistics n)) = (n \<noteq> 0)"

fun mstats_compile :: "('r, 'i, 'h, 'a, 'c) gp_ops \<Rightarrow> mstatistics \<Rightarrow> 'i list \<Rightarrow> 'c" where
  "mstats_compile ops (MultiStatistics n) pop = stats_compile ops n pop"

text \<open>
  The context manager \<^verbatim>\<open>random_state(cls)\<close> around a body that draws random numbers: it
  saves the global state in \<^verbatim>\<open>cls._tmp_state\<close>, sets the global generator to
  \<^verbatim>\<open>cls._prev_state\<close> (to its own state when the attribute is missing), runs the body, saves
  the state the body left in \<^verbatim>\<open>cls._prev_state\<close> and sets the generator to
  \<^verbatim>\<open>cls._tmp_state\<close>. The result is the body's value, the runner and the global state.
\<close>

definition random_state ::
  "('r \<Rightarrow> 'x \<times> 'r) \<Rightarrow> ('r, 'i, 'h, 'a, 'c) gp_runner \<times> 'r
    \<Rightarrow> 'x \<times> ('r, 'i, 'h, 'a, 'c) gp_runner \<times> 'r" where
  "random_state body = (\<lambda>(cls, g).
     let cls1 = cls\<lparr>tmp_state := Some g\<rparr>;
         g1 = (case prev_state cls1 of Some p \<Rightarrow> p | None \<Rightarrow> g);
         (res, g2) = body g1;
         cls2 = cls1\<lparr>prev_state := Some g2\<rparr>;
         g3 = (case tmp_state cls2 of Some t \<Rightarrow> t | None \<Rightarrow> g2)
     in (res, cls2, g3))"

text \<open>\<^verbatim>\<open>GPRunner._update\<close>; \<^verbatim>\<open>self.population[0]\<close> raises IndexError on an empty population.\<close>

definition GPRunner_update ::
  "('r, 'i, 'h, 'a, 'c) gp_ops \<Rightarrow> ('i, 'h, 'a, 'c) evolution \<Rightarrow> pyerror + ('i, 'h, 'a, 'c) evolution" where
  "GPRunner_update ops ev =
     (let ev1 = ev\<lparr>population := assessment_runner ops (population ev)\<rparr>;
          ev2 = ev1\<lparr>halloffame := hof_update ops (halloffame ev1) (population ev1)\<rparr>
      in case (if \<not> mstats_true (mstats ev2)
               then (case population ev2 of
                       [] \<Rightarrow> Inl IndexError
                     | ind # _ \<Rightarrow> Inr (create_stats (length (fitness_values ops ind))))
               else (case mstats ev2 of None \<Rightarrow> Inl AttributeError | Some m \<Rightarrow> Inr m)) of
           Inl e \<Rightarrow> Inl e
         | Inr m \<Rightarrow>
            (let ev3 = ev2\<lparr>mstats := Some m\<rparr>;
                 compiled = mstats_compile ops m (population ev3)
             in Inr (ev3\<lparr>logbook := logbook ev3 @ [(step_count ev3, compiled)]\<rparr>)))"

definition GPRunner_init ::
  "('r, 'i, 'h, 'a, 'c) gp_ops \<Rightarrow> int \<Rightarrow> ('r, 'i, 'h, 'a, 'c) gp_runner \<times> 'r
    \<Rightarrow> pyerror + ('r, 'i, 'h, 'a, 'c) gp_runner \<times> 'r" where
  "GPRunner_init ops psize = (\<lambda>(self, g).
     case random_state (create_population ops psize) (self, g) of
       (pop, self1, g1) \<Rightarrow>
         (case GPRunner_update ops
                 \<lparr>halloffame = pareto_front ops, logbook = [], mstats = None, step_count = 0,
                  population = pop, algorithm = algorithm_factory ops\<rparr> of
            Inl e \<Rightarrow> Inl e
          | Inr ev \<Rightarrow> Inr (self1\<lparr>evolution := Some ev\<rparr>, g1)))"

definition GPRunner_step ::
  "('r, 'i, 'h, 'a, 'c) gp_ops \<Rightarrow> ('r, 'i, 'h, 'a, 'c) gp_runner \<times> 'r
    \<Rightarrow> pyerror + ('r, 'i, 'h, 'a, 'c) gp_runner \<times> 'r" where
  "GPRunner_step ops = (\<lambda>(self, g).
     case evolution self of
       None \<Rightarrow> Inl AttributeError
     | Some ev \<Rightarrow>
        (case random_state (evolve ops (algorithm ev) (population ev)) (self, g) of
           ((pop, alg), self1, g1) \<Rightarrow>
             (case GPRunner_update ops
                     (ev\<lparr>population := pop, algorithm := alg, step_count := step_count ev + 1\<rparr>) of
                Inl e \<Rightarrow> Inl e
              | Inr ev' \<Rightarrow> Inr (self1\<lparr>evolution := Some ev'\<rparr>, g1))))"

section \<open>application.py: checkpoint files\<close>

text \<open>
  The world outside the application: the state of Python's global random generator and the
  files written with \<^verbatim>\<open>safe\<close>, as the list of the calls (file name and dictionary, the
  latest first). A file holds what the latest call wrote to it. \<^verbatim>\<open>dill\<close> is taken to
  store and restore a dictionary unchanged, and writing a file to succeed; loading a file
  that was never written raises FileNotFoundError.
\<close>

record ('r, 'v) world =
  rng :: "'r"
  written :: "(string \<times> (string \<rightharpoonup> 'v)) list"

definition safe :: "string \<Rightarrow> (string \<rightharpoonup> 'v) \<Rightarrow> ('r, 'v) world \<Rightarrow> ('r, 'v) world" where
  "safe file_name kwargs w = w\<lparr>written := (file_name, kwargs) # written w\<rparr>"

definition load :: "string \<Rightarrow> ('r, 'v) world \<Rightarrow> pyerror + (string \<rightharpoonup> 'v)" where
  "load file_name w =
     (case map_of (written w) file_name of
        None \<Rightarrow> Inl FileNotFoundError
      | Some cp \<Rightarrow> Inr cp)"

section \<open>application.py: the application\<close>

text \<open>
  The options the application reads. \<^verbatim>\<open>checkpoint_frequency\<close> is tested with
  \<^verbatim>\<open>isinstance(..., int)\<close>, so it is an integer or some other object.
\<close>

datatype pyobject = PyInt int | PyOther

record config =
  pop_size :: int
  num_generations :: int
  seed :: int
  checkpoint_frequency :: pyobject

record ('r, 'i, 'h, 'a, 'c) application =
  args :: config
  gp_runner :: "('r, 'i, 'h, 'a, 'c) gp_runner"
  checkpoint_file :: "string option"
  pareto_fronts :: "'i list list"
  initialized :: bool

text \<open>The values a checkpoint's dictionary holds under its four keys.\<close>

datatype ('r, 'i, 'h, 'a, 'c) pickled =
    PArgs config
  | PRunner "('r, 'i, 'h, 'a, 'c) gp_runner"
  | PRandomState 'r
  | PParetoFronts "'i list list"

type_synonym ('r, 'i, 'h, 'a, 'c) app_state =
  "('r, 'i, 'h, 'a, 'c) application \<times> ('r, ('r, 'i, 'h, 'a, 'c) pickled) world"

definition Application ::
  "config \<Rightarrow> ('r, 'i, 'h, 'a, 'c) gp_runner \<Rightarrow> string option \<Rightarrow> ('r, 'i, 'h, 'a, 'c) application" where
  "Application cfg runner file =
     \<lparr>args = cfg, gp_runner = runner, checkpoint_file = file, pareto_fronts = [],
      initialized = False\<rparr>"

definition valid_checkpointing :: "('r, 'i, 'h, 'a, 'c) application \<Rightarrow> bool" where
  "valid_checkpointing app =
     (checkpoint_file app \<noteq> None \<and>
      (case checkpoint_frequency (args app) of PyInt c \<Rightarrow> True | PyOther \<Rightarrow> False))"

text \<open>
  \<^verbatim>\<open>checkpoint\<close> saves the options, the runner, the global random state and the Pareto
  fronts. Opening the file \<^verbatim>\<open>None\<close> raises TypeError.
\<close>

definition checkpoint ::
  "('r, 'i, 'h, 'a, 'c) app_state \<Rightarrow> pyerror + ('r, ('r, 'i, 'h, 'a, 'c) pickled) world" where
  "checkpoint = (\<lambda>(app, w).
     case checkpoint_file app of
       None \<Rightarrow> Inl TypeError
     | Some f \<Rightarrow>
         Inr (safe f [''args'' \<mapsto> PArgs (args app),
                      ''runner'' \<mapsto> PRunner (gp_runner app),
                      ''random_state'' \<mapsto> PRandomState (rng w),
                      ''pareto_fronts'' \<mapsto> PParetoFronts (pareto_fronts app)] w))"

text \<open>
  Python's \<^verbatim>\<open>%\<close> on integers is the remainder of the floor division, as \<open>mod\<close> on \<open>int\<close>
  is; a zero divisor raises ZeroDivisionError. The case of another object is not reached:
  \<^verbatim>\<open>valid_checkpointing\<close> is tested first.
\<close>

fun py_mod :: "int \<Rightarrow> pyobject \<Rightarrow> pyerror + int" where
  "py_mod x (PyInt c) = (if c = 0 then Inl ZeroDivisionError else Inr (x mod c))"
| "py_mod x PyOther = Inl TypeError"

text \<open>\<^verbatim>\<open>Application._update\<close> (the log message apart).\<close>

definition Application_update ::
  "('r, 'i, 'h, 'a, 'c) gp_ops \<Rightarrow> ('r, 'i, 'h, 'a, 'c) app_state
    \<Rightarrow> pyerror + ('r, 'i, 'h, 'a, 'c) app_state" where
  "Application_update ops = (\<lambda>(app, w).
     case evolution (gp_runner app) of
       None \<Rightarrow> Inl AttributeError
     | Some ev \<Rightarrow>
        (let app1 = app\<lparr>pareto_fronts := pareto_fronts app @ [hof_items ops (halloffame ev)]\<rparr>
         in if valid_checkpointing app1
            then (case py_mod (step_count ev) (checkpoint_frequency (args app1)) of
                    Inl e \<Rightarrow> Inl e
                  | Inr m \<Rightarrow>
                      if m = 0
                      then (case checkpoint (app1, w) of
                              Inl e \<Rightarrow> Inl e
                            | Inr w' \<Rightarrow> Inr (app1, w'))
                      else Inr (app1, w))
            else Inr (app1, w)))"

text \<open>
  The two places where \<^verbatim>\<open>run\<close> advances the runner, each followed by the application's
  update: the initialisation, after seeding the global generator, and one evolution step.
\<close>

definition init_update ::
  "('r, 'i, 'h, 'a, 'c) gp_ops \<Rightarrow> ('r, 'i, 'h, 'a, 'c) app_state
    \<Rightarrow> pyerror + ('r, 'i, 'h, 'a, 'c) app_state" where
  "init_update ops = (\<lambda>(app, w).
     let w1 = w\<lparr>rng := random_seed ops (seed (args app))\<rparr>
     in case GPRunner_init ops (pop_size (args app)) (gp_runner app, rng w1) of
          Inl e \<Rightarrow> Inl e
        | Inr (runner, g) \<Rightarrow> Application_update ops (app\<lparr>gp_runner := runner\<rparr>, w1\<lparr>rng := g\<rparr>))"

definition step_update ::
  "('r, 'i, 'h, 'a, 'c) gp_ops \<Rightarrow> ('r, 'i, 'h, 'a, 'c) app_state
    \<Rightarrow> pyerror + ('r, 'i, 'h, 'a, 'c) app_state" where
  "step_update ops = (\<lambda>(app, w).
     case GPRunner_step ops (gp_runner app, rng w) of
       Inl e \<Rightarrow> Inl e
     | Inr (runner, g) \<Rightarrow> Application_update ops (app\<lparr>gp_runner := runner\<rparr>, w\<lparr>rng := g\<rparr>))"

text \<open>
  The loop of \<^verbatim>\<open>run\<close>, with the number of iterations counted so far. Reading
  \<^verbatim>\<open>step_count\<close> of a runner that was never initialised raises AttributeError. Every
  iteration that does not raise increases \<^verbatim>\<open>step_count\<close>, which bounds the loop.
\<close>

function run_loop ::
  "('r, 'i, 'h, 'a, 'c) gp_ops \<Rightarrow> (('r, 'i, 'h, 'a, 'c) app_state \<Rightarrow> bool)
    \<Rightarrow> ('r, 'i, 'h, 'a, 'c) app_state \<Rightarrow> int \<Rightarrow> pyerror + int \<times> ('r, 'i, 'h, 'a, 'c) app_state" where
  "run_loop ops break_condition (app, w) iterations =
     (case evolution (gp_runner app) of
        None \<Rightarrow> Inl AttributeError
      | Some ev \<Rightarrow>
          if step_count ev < num_generations (args app) \<and> \<not> break_condition (app, w)
          then (case step_update ops (app, w) of
                  Inl e \<Rightarrow> Inl e
                | Inr (app', w') \<Rightarrow> run_loop ops break_condition (app', w') (iterations + 1))
          else Inr (iterations, app, w))"
  by pat_completeness auto
termination
  apply (relation "measure (\<lambda>(ops, bc, (app, w), it).
      nat (num_generations (args app) -
        (case evolution (gp_runner app) of
           None \<Rightarrow> num_generations (args app)
         | Some ev \<Rightarrow> step_count ev)))")
   apply simp
  apply (auto simp: step_update_def Application_update_def GPRunner_step_def GPRunner_update_def
      random_state_def checkpoint_def Let_def
      split: sum.splits option.splits prod.splits if_splits list.splits)
  done

declare run_loop.simps [simp del]

text \<open>
  \<^verbatim>\<open>Application.run(break_condition)\<close>: the result is the number of iterations, with the
  application and the world as the run leaves them. No break condition is the condition
  that is never true.
\<close>

definition run ::
  "('r, 'i, 'h, 'a, 'c) gp_ops \<Rightarrow> (('r, 'i, 'h, 'a, 'c) app_state \<Rightarrow> bool) option
    \<Rightarrow> ('r, 'i, 'h, 'a, 'c) app_state \<Rightarrow> pyerror + int \<times> ('r, 'i, 'h, 'a, 'c) app_state" where
  "run ops break_condition = (\<lambda>(app, w).
     let bc = (case break_condition of None \<Rightarrow> (\<lambda>s. False) | Some f \<Rightarrow> f);
         iterations = 0
     in if pop_size (args app) < 1 then Inr (iterations, app, w)
        else if \<not> initialized app
        then (case init_update ops (app, w) of
                Inl e \<Rightarrow> Inl e
              | Inr (app1, w1) \<Rightarrow> run_loop ops bc (app1, w1) (iterations + 1))
        else run_loop ops bc (app, w) iterations)"

text \<open>
  \<^verbatim>\<open>to_argparse_namespace\<close> accepts a namespace or a dictionary of options and raises
  RuntimeError on any other object.
\<close>

fun to_argparse_namespace :: "('r, 'i, 'h, 'a, 'c) pickled \<Rightarrow> pyerror + config" where
  "to_argparse_namespace (PArgs cfg) = Inr cfg"
| "to_argparse_namespace other = Inl RuntimeError"

text \<open>
  \<^verbatim>\<open>Application.from_checkpoint(file_name)\<close>. A missing key raises KeyError. Python would
  store an object of the wrong kind as the runner, the fronts or the random state and fail
  later or in \<^verbatim>\<open>random.setstate\<close>; the model makes that TypeError.
\<close>

definition from_checkpoint ::
  "string \<Rightarrow> ('r, ('r, 'i, 'h, 'a, 'c) pickled) world \<Rightarrow> pyerror + ('r, 'i, 'h, 'a, 'c) app_state" where
  "from_checkpoint file_name w =
     (case load file_name w of
        Inl e \<Rightarrow> Inl e
      | Inr cp \<Rightarrow>
        (case cp ''args'' of
           None \<Rightarrow> Inl KeyError
         | Some a \<Rightarrow>
           (case cp ''runner'' of
              None \<Rightarrow> Inl KeyError
            | Some r \<Rightarrow>
              (case to_argparse_namespace a of
                 Inl e \<Rightarrow> Inl e
               | Inr cfg \<Rightarrow>
                 (case r of
                    PRunner runner \<Rightarrow>
                      (let app = Application cfg runner (Some file_name)
                       in case cp ''pareto_fronts'' of
                            None \<Rightarrow> Inl KeyError
                          | Some (PParetoFronts fronts) \<Rightarrow>
                              (let app1 = app\<lparr>pareto_fronts := fronts\<rparr>;
                                   app2 = app1\<lparr>initialized := True\<rparr>
                               in case cp ''random_state'' of
                                    None \<Rightarrow> Inl KeyError
                                  | Some (PRandomState g) \<Rightarrow> Inr (app2, w\<lparr>rng := g\<rparr>)
                                  | Some other \<Rightarrow> Inl TypeError)
                          | Some other \<Rightarrow> Inl TypeError)
                  | other \<Rightarrow> Inl TypeError)))))"

section \<open>The words of the specification about a run\<close>

text \<open>The evolution steps of a run, one after the other: \<open>n\<close> times a step and its update.\<close>

primrec repeat_steps ::
  "('r, 'i, 'h, 'a, 'c) gp_ops \<Rightarrow> nat \<Rightarrow> ('r, 'i, 'h, 'a, 'c) app_state
    \<Rightarrow> pyerror + ('r, 'i, 'h, 'a, 'c) app_state" where
  "repeat_steps ops 0 s = Inr s"
| "repeat_steps ops (Suc n) s =
     (case step_update ops s of
        Inl e \<Rightarrow> Inl e
      | Inr s' \<Rightarrow> repeat_steps ops n s')"

text \<open>
  What a run needs from the operations outside the two modules: the creation of a
  population of at least one individual, the evolution of a population that has an
  individual and its assessment give a population that has an individual.
\<close>

definition keeps_populated :: "('r, 'i, 'h, 'a, 'c) gp_ops \<Rightarrow> bool" where
  "keeps_populated ops =
     ((\<forall>n g. 1 \<le> n \<longrightarrow> fst (create_population ops n g) \<noteq> []) \<and>
      (\<forall>alg pop g. pop \<noteq> [] \<longrightarrow> fst (fst (evolve ops alg pop g)) \<noteq> []) \<and>
      (\<forall>pop. pop \<noteq> [] \<longrightarrow> assessment_runner ops pop \<noteq> []))"

text \<open>The generation the runner of an application has reached (none before \<^verbatim>\<open>init\<close>).\<close>

definition generation :: "('r, 'i, 'h, 'a, 'c) application \<Rightarrow> int option" where
  "generation app = map_option step_count (evolution (gp_runner app))"

text \<open>
  The condition the specification gives for a checkpoint at an update: there is a checkpoint
  file, the frequency is an integer, and the runner's generation is divisible by it, which
  is the test \<^verbatim>\<open>step_count % checkpoint_frequency == 0\<close> of the source being true. No
  generation is divisible by the frequency 0: there the modulo has no value.
\<close>

definition checkpoint_due :: "('r, 'i, 'h, 'a, 'c) application \<Rightarrow> bool" where
  "checkpoint_due app =
     (checkpoint_file app \<noteq> None \<and>
      (case (checkpoint_frequency (args app), generation app) of
         (PyInt c, Some n) \<Rightarrow> py_mod n (PyInt c) = Inr 0
       | other \<Rightarrow> False))"

text \<open>The dictionary a checkpoint of the application holds in a world.\<close>

definition checkpoint_of ::
  "('r, 'i, 'h, 'a, 'c) app_state \<Rightarrow> (string \<rightharpoonup> ('r, 'i, 'h, 'a, 'c) pickled)" where
  "checkpoint_of = (\<lambda>(app, w).
     [''args'' \<mapsto> PArgs (args app),
      ''runner'' \<mapsto> PRunner (gp_runner app),
      ''random_state'' \<mapsto> PRandomState (rng w),
      ''pareto_fronts'' \<mapsto> PParetoFronts (pareto_fronts app)])"

text \<open>
  The state of the runner after \<^verbatim>\<open>init\<close> and after every \<^verbatim>\<open>step\<close>, as the specification
  describes it: the logbook holds one record more than the generation, and its latest
  record is the record of the generation.
\<close>

definition logbook_current :: "('i, 'h, 'a, 'c) evolution \<Rightarrow> bool" where
  "logbook_current ev =
     (int (length (logbook ev)) = step_count ev + 1 \<and>
      logbook ev \<noteq> [] \<and> fst (last (logbook ev)) = step_count ev)"

text \<open>
  The runner's own stream of random numbers: the state saved in \<^verbatim>\<open>_prev_state\<close>, and the
  global state at the first call, when nothing is saved yet.
\<close>

definition runner_stream :: "('r, 'i, 'h, 'a, 'c) gp_runner \<Rightarrow> 'r \<Rightarrow> 'r" where
  "runner_stream self g = (case prev_state self of Some p \<Rightarrow> p | None \<Rightarrow> g)"

section \<open>The words of the specification about checkpoints\<close>

text \<open>
  The checkpoints an update of the application writes, by the specification's condition:
  one checkpoint of the application in its world to the checkpoint file when the
  checkpoint is due, none otherwise.
\<close>

definition new_checkpoints ::
  "('r, 'i, 'h, 'a, 'c) app_state \<Rightarrow> (string \<times> (string \<rightharpoonup> ('r, 'i, 'h, 'a, 'c) pickled)) list" where
  "new_checkpoints = (\<lambda>(app, w).
     case checkpoint_file app of
       None \<Rightarrow> []
     | Some f \<Rightarrow> if checkpoint_due app then [(f, checkpoint_of (app, w))] else [])"

text \<open>The runner of the application has a population with an individual.\<close>

definition populated :: "('r, 'i, 'h, 'a, 'c) application \<Rightarrow> bool" where
  "populated app = (\<exists>ev. evolution (gp_runner app) = Some ev \<and> population ev \<noteq> [])"

text \<open>
  The modulo of an update is defined: there is no checkpoint file, or the frequency is not
  the integer zero.
\<close>

definition frequency_usable :: "('r, 'i, 'h, 'a, 'c) application \<Rightarrow> bool" where
  "frequency_usable app =
     (checkpoint_file app = None \<or> checkpoint_frequency (args app) \<noteq> PyInt 0)"

text \<open>The number of iterations a run returns, or the exception it raises.\<close>

definition iterations :: "pyerror + int \<times> 's \<Rightarrow> pyerror + int" where
  "iterations r = map_sum (\<lambda>e. e) fst r"

section \<open>Instances of the parameters\<close>

text \<open>
  Operations, a runner that was never initialised and a runner after its initialisation, on
  which the examples after the theorems are computed: random states and individuals are
  natural numbers, a hall of fame keeps the first individual.
\<close>

definition example_ops :: "(nat, nat, nat list, unit, nat) gp_ops" where
  "example_ops =
     \<lparr>create_population = (\<lambda>n g. (replicate (nat n) g, g + 1)),
      algorithm_factory = (),
      evolve = (\<lambda>alg pop g. ((map (\<lambda>i. i + g) pop, ()), g + 1)),
      assessment_runner = (\<lambda>pop. pop),
      pareto_front = [],
      hof_update = (\<lambda>h pop. take 1 pop),
      hof_items = (\<lambda>h. h),
      fitness_values = (\<lambda>i. [real i]),
      stats_compile = (\<lambda>n pop. length pop),
      random_seed = (\<lambda>s. nat s)\<rparr>"

definition new_runner :: "(nat, nat, nat list, unit, nat) gp_runner" where
  "new_runner = \<lparr>evolution = None, prev_state = None, tmp_state = None\<rparr>"

definition example_runner :: "(nat, nat, nat list, unit, nat) gp_runner" where
  "example_runner =
     \<lparr>evolution = Some \<lparr>halloffame = [3], logbook = [(0, 1)], mstats = Some (MultiStatistics 1),
                        step_count = 0, population = [3], algorithm = ()\<rparr>,
      prev_state = Some 4, tmp_state = Some 7\<rparr>"

text \<open>A world without files, and applications on the runner that was never initialised.\<close>

definition example_world :: "(nat, (nat, nat, nat list, unit, nat) pickled) world" where
  "example_world = \<lparr>rng = 0, written = []\<rparr>"

definition example_app ::
  "int \<Rightarrow> int \<Rightarrow> pyobject \<Rightarrow> string option \<Rightarrow> (nat, nat, nat list, unit, nat) application" where
  "example_app psize gens freq file =
     Application \<lparr>pop_size = psize, num_generations = gens, seed = 3,
                  checkpoint_frequency = freq\<rparr> new_runner file"

text \<open>An application resumed on the runner after its initialisation, at generation 0.\<close>

definition resumed_app ::
  "pyobject \<Rightarrow> string option \<Rightarrow> (nat, nat, nat list, unit, nat) application" where
  "resumed_app freq file =
     (Application \<lparr>pop_size = 1, num_generations = 2, seed = 3, checkpoint_frequency = freq\<rparr>
        example_runner file)\<lparr>initialized := True\<rparr>"

section \<open>Theorems: the derivative functions\<close>

text \<open>
  Claim C6. For every actuator \<open>f\<close>, frequency \<open>omega\<close>, time \<open>t\<close>, state \<open>y\<close> with at least two
  components and extra arguments, the derivative function of
  \<^verbatim>\<open>harmonic_oscillator(f, omega)\<close> returns \<open>[y[1], -omega\<^sup>2 * y[0] + f(*y, *args)]\<close>, and
  the result is the same at every time.
\<close>

theorem harmonic_oscillator_dy:
  assumes "2 \<le> length y"
  shows "harmonic_oscillator f omega t y extra = Inr [y ! 1, - (omega ^ 2) * y ! 0 + f (y @ extra)]
       \<and> harmonic_oscillator f omega t y extra = Inr [y ! 1, - (omega ^ 2 * y ! 0) + f (y @ extra)]
       \<and> harmonic_oscillator f omega t y extra = harmonic_oscillator f omega t' y extra"
  using assms by (simp add: harmonic_oscillator_def)

theorem harmonic_oscillator_dy_witness:
  "2 \<le> length [1, 2 :: real]
   \<and> harmonic_oscillator sum_list 3 0 [1, 2] [5] = Inr [2, - 1]
   \<and> harmonic_oscillator sum_list 3 7 [1, 2] [5] = Inr [2, - 1]"
proof -
  have h: "2 \<le> length [1, 2 :: real]" by simp
  have "harmonic_oscillator sum_list 3 0 [1, 2] [5] = Inr [2, - 1]"
    using harmonic_oscillator_dy [OF h, of sum_list 3 0 "[5]" 7] by simp
  moreover have "harmonic_oscillator sum_list 3 7 [1, 2] [5] = Inr [2, - 1]"
    using harmonic_oscillator_dy [OF h, of sum_list 3 7 "[5]" 0] by simp
  ultimately show ?thesis using h by simp
qed

lemma broadcast2_error: "broadcast2 f xs ys = Inl e \<Longrightarrow> e = ValueError"
  by (auto simp: broadcast2_def split: if_splits)

lemma dot_error: "dot A v = Inl e \<Longrightarrow> e = AttributeError \<or> e = ValueError"
  by (auto simp: dot_def split: coupling.splits if_splits)

lemma np_div_nonzero: "d \<noteq> 0 \<Longrightarrow> np_div xs d = Inr (map (\<lambda>x. x / d) xs)"
  by (simp add: np_div_def)

lemma fitzhugh_nagumo_dy_divides:
  assumes "tau \<noteq> 0"
  shows "fitzhugh_nagumo_dy actuator sensor a b tau A t y extra \<noteq> Inl DivisionByZero"
  using assms
  by (auto simp: fitzhugh_nagumo_dy_def Let_def np_div_nonzero
      split: sum.splits dest: broadcast2_error dot_error)

text \<open>
  Claim C8. \<^verbatim>\<open>fitzhugh_nagumo\<close> raises RuntimeError exactly when \<open>tau\<close> is zero, it raises
  nothing else, and it raises when the system is built: no derivative function is returned
  then. For every other \<open>tau\<close> it returns a derivative function that never divides by zero,
  whatever the time, the state and the extra arguments.
\<close>

theorem fitzhugh_nagumo_raises:
  "(fitzhugh_nagumo actuator sensor a b tau A = Inl RuntimeError \<longleftrightarrow> tau = 0)
   \<and> (\<forall>e. fitzhugh_nagumo actuator sensor a b tau A = Inl e \<longrightarrow> e = RuntimeError)
   \<and> (tau \<noteq> 0 \<longrightarrow>
        (\<exists>dy. fitzhugh_nagumo actuator sensor a b tau A = Inr dy
           \<and> (\<forall>t y extra. dy t y extra \<noteq> Inl DivisionByZero)))"
  by (auto simp: fitzhugh_nagumo_def fitzhugh_nagumo_dy_divides)

theorem fitzhugh_nagumo_raises_witness:
  "fitzhugh_nagumo (\<lambda>v. [0]) id 0.7 0.8 12.5 (Matrix [[0]]) \<noteq> Inl RuntimeError
   \<and> (\<exists>dy. fitzhugh_nagumo (\<lambda>v. [0]) id 0.7 0.8 12.5 (Matrix [[0]]) = Inr dy
           \<and> (\<forall>t y extra. dy t y extra \<noteq> Inl DivisionByZero))
   \<and> fitzhugh_nagumo (\<lambda>v. [0]) id 0.7 0.8 0 (Matrix [[0]]) = Inl RuntimeError"
  using fitzhugh_nagumo_raises [of "\<lambda>v. [0]" id "0.7" "0.8" "12.5" "Matrix [[0]]"]
    fitzhugh_nagumo_raises [of "\<lambda>v. [0]" id "0.7" "0.8" 0 "Matrix [[0]]"]
  by simp

section \<open>Theorems: the integrator's wrapper\<close>

lemma length_odeint_steps:
  "length (odeint_steps solver s vs) \<le> length vs"
  by (induction vs arbitrary: s) (auto simp: Let_def)






section \<open>Theorems: the coupling matrices\<close>

lemma sum_list_upt_delta:
  fixes s :: real
  assumes "i < n"
  shows "sum_list (map (\<lambda>j. if i = j then s else 0) [0..<n]) = s"
  using assms by (simp add: interv_sum_list_conv_sum_set_nat)

lemma length_filter_upt_card:
  "length (filter P [0..<n]) = card {j. j < n \<and> P j}"
proof -
  have "card (set (filter P [0..<n])) = length (filter P [0..<n])"
    by (rule distinct_card) simp
  moreover have "set (filter P [0..<n]) = {j. j < n \<and> P j}" by auto
  ultimately show ?thesis by simp
qed

lemma sum_zero_one_card:
  fixes a :: "nat \<Rightarrow> real"
  assumes "\<forall>j < n. a j = 0 \<or> a j = 1" and "i < n"
  shows "(\<Sum>j = 0..<n. a j) - a i = real (card {j. j < n \<and> j \<noteq> i \<and> a j \<noteq> 0})"
proof -
  have fin: "finite {0..<n}" by simp
  have "(\<Sum>j = 0..<n. a j) = a i + (\<Sum>j \<in> {0..<n} - {i}. a j)"
    using assms(2) by (simp add: sum.remove)
  moreover have "(\<Sum>j \<in> {0..<n} - {i}. a j) = (\<Sum>j \<in> {0..<n} - {i}. if a j \<noteq> 0 then 1 else 0)"
    using assms(1) by (intro sum.cong) auto
  moreover have "\<dots> = real (card {j \<in> {0..<n} - {i}. a j \<noteq> 0})"
    by (simp add: sum.If_cases Int_def)
  moreover have "{j \<in> {0..<n} - {i}. a j \<noteq> 0} = {j. j < n \<and> j \<noteq> i \<and> a j \<noteq> 0}" by auto
  ultimately show ?thesis by simp
qed

lemma global_coupling_tabulate:
  assumes "0 \<le> N"
  shows "global_coupling N =
     Inr (map (\<lambda>i. map (\<lambda>j. if i = j then - real_of_int (N - 1) else 1) [0..<nat N]) [0..<nat N])"
proof -
  have "\<And>i. i < nat N \<Longrightarrow> (replicate (nat N) (1::real))[i := - real_of_int (N - 1)]
      = map (\<lambda>j. if i = j then - real_of_int (N - 1) else 1) [0..<nat N]"
    by (rule nth_equalityI) auto
  then show ?thesis
    using assms by (simp add: global_coupling_def np_ones_def fill_diagonal_def)
qed

lemma concat_pairs_length: "length (concat (map (\<lambda>j. [f j, g j]) [0..<k])) = 2 * k"
  by (induction k) auto

lemma concat_pairs_nth:
  "c < 2 * k \<Longrightarrow>
   concat (map (\<lambda>j. [f j, g j]) [0..<k]) ! c = (if even c then f (c div 2) else g (c div 2))"
proof (induction k)
  case 0
  then show ?case by simp
next
  case (Suc k)
  show ?case
  proof (cases "c < 2 * k")
    case True
    then show ?thesis using Suc.IH by (simp add: nth_append concat_pairs_length)
  next
    case False
    then have "c = 2 * k \<or> c = 2 * k + 1" using Suc.prems by auto
    then show ?thesis by (auto simp: nth_append concat_pairs_length)
  qed
qed

lemma kron_row:
  "concat (map (\<lambda>x. map (\<lambda>y. x * y) [p, q]) (map h [0..<k]))
     = concat (map (\<lambda>j. [h j * p, h j * q]) [0..<k])"
  by (simp add: comp_def)

lemma pairwise_coupling_blocks:
  assumes "0 \<le> N" and "N mod 2 = 0"
  shows "pairwise_coupling N = Inr (pair_blocks (nat N))"
proof -
  define k where "k = nat (N div 2)"
  have n: "nat N = 2 * k" using assms by (auto simp: k_def)
  define row :: "nat \<Rightarrow> real \<Rightarrow> real \<Rightarrow> real list" where
    "row i p q = concat (map (\<lambda>j. [(if i = j then 1 else 0) * p, (if i = j then 1 else 0) * q]) [0..<k])"
    for i p q
  have kron: "np_kron (map (\<lambda>i. map (\<lambda>j. if i = j then 1 else 0) [0..<k]) [0..<k]) [[- 1, 1], [1, - 1]]
      = concat (map (\<lambda>i. [row i (- 1) 1, row i 1 (- 1)]) [0..<k])"
    by (simp add: np_kron_def comp_def row_def)
  have "concat (map (\<lambda>i. [row i (- 1) 1, row i 1 (- 1)]) [0..<k]) = pair_blocks (2 * k)"
  proof (rule nth_equalityI)
    show "length (concat (map (\<lambda>i. [row i (- 1) 1, row i 1 (- 1)]) [0..<k])) = length (pair_blocks (2 * k))"
      by (simp add: concat_pairs_length pair_blocks_def)
  next
    fix r assume "r < length (concat (map (\<lambda>i. [row i (- 1) 1, row i 1 (- 1)]) [0..<k]))"
    then have r: "r < 2 * k" by (simp add: concat_pairs_length)
    have len: "\<And>i p q. length (row i p q) = 2 * k" by (simp add: row_def concat_pairs_length)
    have "(if even r then row (r div 2) (- 1) 1 else row (r div 2) 1 (- 1)) = pair_blocks (2 * k) ! r"
    proof (rule nth_equalityI)
      show "length (if even r then row (r div 2) (- 1) 1 else row (r div 2) 1 (- 1))
          = length (pair_blocks (2 * k) ! r)"
        using r by (simp add: len pair_blocks_def)
    next
      fix c assume "c < length (if even r then row (r div 2) (- 1) 1 else row (r div 2) 1 (- 1))"
      then have c: "c < 2 * k" by (simp add: len split: if_splits)
      have eq: "r = c \<longleftrightarrow> r div 2 = c div 2 \<and> even r = even c"
        by (metis bit_eq_rec)
      show "(if even r then row (r div 2) (- 1) 1 else row (r div 2) 1 (- 1)) ! c
          = pair_blocks (2 * k) ! r ! c"
        using r c eq by (auto simp: row_def concat_pairs_nth pair_blocks_def)
    qed
    then show "concat (map (\<lambda>i. [row i (- 1) 1, row i 1 (- 1)]) [0..<k]) ! r = pair_blocks (2 * k) ! r"
      using r by (simp add: concat_pairs_nth)
  qed
  then show ?thesis
    using assms kron by (simp add: pairwise_coupling_def np_eye_def k_def[symmetric] n)
qed


lemma graph_coupling_entry:
  assumes "i < n" and "j < n"
  shows "graph_coupling n adj ! i ! j =
     (if i = j then - real (card {k. k < n \<and> k \<noteq> i \<and> adj i k})
      else if adj i j then 1 else 0)"
  using assms by (simp add: graph_coupling_def length_filter_upt_card)

lemma graph_coupling_length: "length (graph_coupling n adj) = n"
  by (simp add: graph_coupling_def)

lemma graph_coupling_row_length: "i < n \<Longrightarrow> length (graph_coupling n adj ! i) = n"
  by (simp add: graph_coupling_def)

lemma graph_coupling_row_sum:
  assumes "i < n"
  shows "sum_list (graph_coupling n adj ! i) = 0"
proof -
  let ?c = "real (card {k. k < n \<and> k \<noteq> i \<and> adj i k})"
  let ?f = "\<lambda>j. if i = j then - ?c else if adj i j then 1 else (0::real)"
  have "graph_coupling n adj ! i = map ?f [0..<n]"
    using assms by (simp add: graph_coupling_def length_filter_upt_card)
  then have "sum_list (graph_coupling n adj ! i) = (\<Sum>j = 0..<n. ?f j)"
    by (simp only: interv_sum_list_conv_sum_set_nat) simp
  also have "\<dots> = ?f i + (\<Sum>j \<in> {0..<n} - {i}. ?f j)"
    using assms by (simp add: sum.remove)
  also have "(\<Sum>j \<in> {0..<n} - {i}. ?f j) = (\<Sum>j \<in> {0..<n} - {i}. if adj i j then 1 else 0)"
    by (intro sum.cong) auto
  also have "\<dots> = real (card {j \<in> {0..<n} - {i}. adj i j})"
    by (simp add: sum.If_cases Int_def)
  also have "{j \<in> {0..<n} - {i}. adj i j} = {k. k < n \<and> k \<noteq> i \<and> adj i k}" by auto
  finally show ?thesis by simp
qed

lemma graph_coupling_neighbours:
  assumes "i < n"
  shows "coupled_neighbours (graph_coupling n adj) i = card {k. k < n \<and> k \<noteq> i \<and> adj i k}"
proof -
  have "{j. j < n \<and> j \<noteq> i \<and> graph_coupling n adj ! i ! j \<noteq> 0} = {k. k < n \<and> k \<noteq> i \<and> adj i k}"
    using assms by (auto simp: graph_coupling_entry split: if_splits)
  then show ?thesis
    using assms
    by (simp add: coupled_neighbours_def length_filter_upt_card graph_coupling_row_length)
qed

lemma graph_coupling_laplacian:
  assumes "\<forall>i j. adj i j = adj j i"
  shows "negated_laplacian (graph_coupling n adj)"
  using assms
  by (auto simp: negated_laplacian_def list_all_iff graph_coupling_length
      graph_coupling_row_length graph_coupling_row_sum graph_coupling_neighbours
      graph_coupling_entry)


lemma all_coupled_neighbours:
  assumes "i < n"
  shows "card {k. k < n \<and> k \<noteq> i \<and> all_coupled i k} = n - 1"
proof -
  have "{k. k < n \<and> k \<noteq> i \<and> all_coupled i k} = {0..<n} - {i}"
    by (auto simp: all_coupled_def)
  then show ?thesis using assms by simp
qed

lemma global_coupling_graph:
  assumes "1 \<le> N"
  shows "global_coupling N = Inr (graph_coupling (nat N) all_coupled)"
proof -
  have "map (\<lambda>i. map (\<lambda>j. if i = j then - real_of_int (N - 1) else 1) [0..<nat N]) [0..<nat N]
      = graph_coupling (nat N) all_coupled"
  proof (rule nth_equalityI)
    show "length (map (\<lambda>i. map (\<lambda>j. if i = j then - real_of_int (N - 1) else 1) [0..<nat N]) [0..<nat N])
        = length (graph_coupling (nat N) all_coupled)"
      by (simp add: graph_coupling_length)
  next
    fix i
    assume "i < length (map (\<lambda>i. map (\<lambda>j. if i = j then - real_of_int (N - 1) else 1) [0..<nat N]) [0..<nat N])"
    then have i: "i < nat N" by simp
    have "map (\<lambda>j. if i = j then - real_of_int (N - 1) else 1) [0..<nat N]
        = graph_coupling (nat N) all_coupled ! i"
    proof (rule nth_equalityI)
      show "length (map (\<lambda>j. if i = j then - real_of_int (N - 1) else 1) [0..<nat N])
          = length (graph_coupling (nat N) all_coupled ! i)"
        using i by (simp add: graph_coupling_row_length)
    next
      fix j assume "j < length (map (\<lambda>j. if i = j then - real_of_int (N - 1) else 1) [0..<nat N])"
      then have j: "j < nat N" by simp
      show "map (\<lambda>j. if i = j then - real_of_int (N - 1) else 1) [0..<nat N] ! j
          = graph_coupling (nat N) all_coupled ! i ! j"
        using i j assms
        by (simp add: graph_coupling_entry all_coupled_neighbours of_nat_diff)
           (simp add: all_coupled_def)
    qed
    then show "map (\<lambda>i. map (\<lambda>j. if i = j then - real_of_int (N - 1) else 1) [0..<nat N]) [0..<nat N] ! i
        = graph_coupling (nat N) all_coupled ! i"
      using i by simp
  qed
  then show ?thesis using assms by (simp add: global_coupling_tabulate)
qed

lemma paired_neighbours:
  assumes "even n" and "i < n"
  shows "card {k. k < n \<and> k \<noteq> i \<and> paired i k} = 1"
proof -
  have "{k. k < n \<and> k \<noteq> i \<and> paired i k} = {if even i then i + 1 else i - 1}"
    using assms by (auto simp: paired_def elim!: evenE oddE)
  then show ?thesis by simp
qed

lemma pair_blocks_graph:
  assumes "even n"
  shows "pair_blocks n = graph_coupling n paired"
proof (rule nth_equalityI)
  show "length (pair_blocks n) = length (graph_coupling n paired)"
    by (simp add: pair_blocks_def graph_coupling_length)
next
  fix r assume "r < length (pair_blocks n)"
  then have r: "r < n" by (simp add: pair_blocks_def)
  have "map (\<lambda>c. if r div 2 = c div 2 then (if r = c then - 1 else 1) else 0) [0..<n]
      = graph_coupling n paired ! r"
  proof (rule nth_equalityI)
    show "length (map (\<lambda>c. if r div 2 = c div 2 then (if r = c then - 1 else (1::real)) else 0) [0..<n])
        = length (graph_coupling n paired ! r)"
      using r by (simp add: graph_coupling_row_length)
  next
    fix c assume "c < length (map (\<lambda>c. if r div 2 = c div 2 then (if r = c then - 1 else (1::real)) else 0) [0..<n])"
    then have c: "c < n" by simp
    show "map (\<lambda>c. if r div 2 = c div 2 then (if r = c then - 1 else 1) else 0) [0..<n] ! c
        = graph_coupling n paired ! r ! c"
      using r c by (simp add: graph_coupling_entry paired_neighbours [OF assms]) (simp add: paired_def)
  qed
  then show "pair_blocks n ! r = graph_coupling n paired ! r"
    using r by (simp add: pair_blocks_def cong: if_cong)
qed


lemma cycle_edge:
  assumes "i < n"
  shows "(i, j) \<in> set (map (\<lambda>k. (k, (k + 1) mod n)) [0..<n]) \<longleftrightarrow> j = (i + 1) mod n"
  using assms by auto

lemma circular_array_coupling_graph:
  assumes "1 \<le> N"
  shows "circular_array_coupling N = Inr (graph_coupling (nat N) (ring (nat N)))"
proof -
  define n where "n = nat N"
  define es where "es = map (\<lambda>k. (k, (k + 1) mod n)) [0..<n]"
  define adj :: "nat \<Rightarrow> nat \<Rightarrow> real" where
    "adj i j = (if (i, j) \<in> set es \<or> (j, i) \<in> set es then 1 else 0)" for i j
  have n: "0 < n" using assms by (simp add: n_def)
  have adj: "adj i j = (if j = (i + 1) mod n \<or> i = (j + 1) mod n then 1 else 0)"
    if "i < n" "j < n" for i j
    by (simp only: adj_def es_def cycle_edge [OF that(1)] cycle_edge [OF that(2)])
  have A: "adjacency_matrix (n, es) = map (\<lambda>i. map (adj i) [0..<n]) [0..<n]"
    by (simp add: adjacency_matrix_def adj_def)
  have L: "laplacian_matrix (n, es) =
      Inr (map (\<lambda>i. map (\<lambda>j. (if i = j then (\<Sum>c = 0..<n. adj i c) else 0) - adj i j) [0..<n]) [0..<n])"
    using n
    by (simp add: laplacian_matrix_def A Let_def interv_sum_list_conv_sum_set_nat cong: map_cong)
  have "map (map (\<lambda>v. - 1 * v))
      (map (\<lambda>i. map (\<lambda>j. (if i = j then (\<Sum>c = 0..<n. adj i c) else 0) - adj i j) [0..<n]) [0..<n])
      = graph_coupling n (ring n)"
  proof (rule nth_equalityI)
    show "length (map (map (\<lambda>v. - 1 * v))
      (map (\<lambda>i. map (\<lambda>j. (if i = j then (\<Sum>c = 0..<n. adj i c) else 0) - adj i j) [0..<n]) [0..<n]))
      = length (graph_coupling n (ring n))"
      by (simp add: graph_coupling_length)
  next
    fix i
    assume "i < length (map (map (\<lambda>v. - 1 * v))
      (map (\<lambda>i. map (\<lambda>j. (if i = j then (\<Sum>c = 0..<n. adj i c) else 0) - adj i j) [0..<n]) [0..<n]))"
    then have i: "i < n" by simp
    have d: "(\<Sum>c = 0..<n. adj i c) - adj i i = real (card {k. k < n \<and> k \<noteq> i \<and> ring n i k})"
    proof -
      have "(\<Sum>c = 0..<n. adj i c) - adj i i = real (card {k. k < n \<and> k \<noteq> i \<and> adj i k \<noteq> 0})"
        by (rule sum_zero_one_card) (auto simp: adj_def i)
      moreover have "{k. k < n \<and> k \<noteq> i \<and> adj i k \<noteq> 0} = {k. k < n \<and> k \<noteq> i \<and> ring n i k}"
        using i by (auto simp: adj ring_def split: if_splits)
      ultimately show ?thesis by simp
    qed
    have "map (\<lambda>j. - 1 * ((if i = j then (\<Sum>c = 0..<n. adj i c) else 0) - adj i j)) [0..<n]
        = graph_coupling n (ring n) ! i"
    proof (rule nth_equalityI)
      show "length (map (\<lambda>j. - 1 * ((if i = j then (\<Sum>c = 0..<n. adj i c) else 0) - adj i j)) [0..<n])
          = length (graph_coupling n (ring n) ! i)"
        using i by (simp add: graph_coupling_row_length)
    next
      fix j
      assume "j < length (map (\<lambda>j. - 1 * ((if i = j then (\<Sum>c = 0..<n. adj i c) else 0) - adj i j)) [0..<n])"
      then have j: "j < n" by simp
      show "map (\<lambda>j. - 1 * ((if i = j then (\<Sum>c = 0..<n. adj i c) else 0) - adj i j)) [0..<n] ! j
          = graph_coupling n (ring n) ! i ! j"
      proof (cases "i = j")
        case True
        then show ?thesis using i d by (simp add: graph_coupling_entry)
      next
        case False
        then show ?thesis using i j by (simp add: graph_coupling_entry adj ring_def)
      qed
    qed
    then show "map (map (\<lambda>v. - 1 * v))
      (map (\<lambda>i. map (\<lambda>j. (if i = j then (\<Sum>c = 0..<n. adj i c) else 0) - adj i j) [0..<n]) [0..<n]) ! i
      = graph_coupling n (ring n) ! i"
      using i by (simp add: comp_def cong: if_cong)
  qed
  then show ?thesis
    using L by (simp only: circular_array_coupling_def cycle_graph_def n_def[symmetric]
        es_def[symmetric] sum.case)
qed

lemma ring_neighbours:
  assumes "3 \<le> n" and "i < n"
  shows "card {k. k < n \<and> k \<noteq> i \<and> ring n i k} = 2"
proof -
  have s: "Suc k mod n = (if Suc k = n then 0 else Suc k)" if "k < n" for k
    using that by (auto simp: mod_if)
  let ?next = "if i + 1 = n then 0 else i + 1"
  let ?prev = "if i = 0 then n - 1 else i - 1"
  have t: "Suc k = n" if "k < n" "n dvd Suc k" for k
    using that by (auto dest: dvd_imp_le)
  have "{k. k < n \<and> k \<noteq> i \<and> ring n i k} = {?next, ?prev}"
    using assms by (auto simp: ring_def s split: if_splits dest: t)
  moreover have "?next \<noteq> ?prev" using assms by (auto split: if_splits)
  ultimately show ?thesis by (simp del: One_nat_def)
qed

text \<open>
  Claim C7. The coupling-matrix generators return negated graph Laplacians: for every
  \<open>N \<ge> 1\<close> (\<open>N\<close> even for pairwise coupling) \<^verbatim>\<open>global_coupling(N)\<close>,
  \<^verbatim>\<open>pairwise_coupling(N)\<close> and \<^verbatim>\<open>circular_array_coupling(N)\<close> return the negated Laplacian
  of the graph of their topology on \<open>N\<close> nodes. Each is \<open>N\<close> by \<open>N\<close> and symmetric with
  entries zero or one off the diagonal, every row sums to zero, and every diagonal entry is
  minus the number of coupled neighbours of its node: \<open>N - 1\<close> under global coupling (with
  \<open>1\<close> everywhere off the diagonal), one under pairwise coupling, two in a circular array
  of at least three nodes.
\<close>

theorem coupling_matrices_negated_laplacians:
  assumes "1 \<le> N"
  shows "global_coupling N = Inr (graph_coupling (nat N) all_coupled)
       \<and> (\<forall>i<nat N. \<forall>j<nat N. graph_coupling (nat N) all_coupled ! i ! j
              = (if i = j then - real_of_int (N - 1) else 1))
       \<and> (\<forall>i<nat N. coupled_neighbours (graph_coupling (nat N) all_coupled) i = nat N - 1)
       \<and> (N mod 2 = 0 \<longrightarrow>
             pairwise_coupling N = Inr (graph_coupling (nat N) paired)
             \<and> (\<forall>i<nat N. graph_coupling (nat N) paired ! i ! i = - 1
                    \<and> coupled_neighbours (graph_coupling (nat N) paired) i = 1))
       \<and> circular_array_coupling N = Inr (graph_coupling (nat N) (ring (nat N)))
       \<and> (3 \<le> N \<longrightarrow>
             (\<forall>i<nat N. graph_coupling (nat N) (ring (nat N)) ! i ! i = - 2
                    \<and> coupled_neighbours (graph_coupling (nat N) (ring (nat N))) i = 2))
       \<and> (\<forall>A \<in> {graph_coupling (nat N) all_coupled, graph_coupling (nat N) paired,
                   graph_coupling (nat N) (ring (nat N))}.
             length A = nat N \<and> negated_laplacian A)"
proof -
  have G: "global_coupling N = Inr (graph_coupling (nat N) all_coupled)"
    by (rule global_coupling_graph [OF assms])
  have G1: "\<forall>i<nat N. \<forall>j<nat N. graph_coupling (nat N) all_coupled ! i ! j
              = (if i = j then - real_of_int (N - 1) else 1)"
    using assms
    by (simp add: graph_coupling_entry all_coupled_neighbours of_nat_diff)
       (simp add: all_coupled_def)
  have G2: "\<forall>i<nat N. coupled_neighbours (graph_coupling (nat N) all_coupled) i = nat N - 1"
    by (simp add: graph_coupling_neighbours all_coupled_neighbours)
  have P: "pairwise_coupling N = Inr (graph_coupling (nat N) paired)
             \<and> (\<forall>i<nat N. graph_coupling (nat N) paired ! i ! i = - 1
                    \<and> coupled_neighbours (graph_coupling (nat N) paired) i = 1)"
    if even: "N mod 2 = 0"
  proof -
    have "even N" using even by presburger
    then have e: "even (nat N)" using assms by (simp add: even_nat_iff)
    have "pairwise_coupling N = Inr (pair_blocks (nat N))"
      using assms even by (simp add: pairwise_coupling_blocks)
    then show ?thesis
      using e by (simp add: pair_blocks_graph graph_coupling_entry graph_coupling_neighbours
          paired_neighbours)
  qed
  have C: "circular_array_coupling N = Inr (graph_coupling (nat N) (ring (nat N)))"
    by (rule circular_array_coupling_graph [OF assms])
  have C1: "\<forall>i<nat N. graph_coupling (nat N) (ring (nat N)) ! i ! i = - 2
                    \<and> coupled_neighbours (graph_coupling (nat N) (ring (nat N))) i = 2"
    if "3 \<le> N"
  proof -
    have "3 \<le> nat N" using that by simp
    then show ?thesis
      by (simp add: graph_coupling_entry graph_coupling_neighbours ring_neighbours)
  qed
  have L: "\<forall>A \<in> {graph_coupling (nat N) all_coupled, graph_coupling (nat N) paired,
                   graph_coupling (nat N) (ring (nat N))}.
             length A = nat N \<and> negated_laplacian A"
  proof -
    have "\<forall>i j. all_coupled i j = all_coupled j i" by (auto simp: all_coupled_def)
    moreover have "\<forall>i j. paired i j = paired j i" by (auto simp: paired_def)
    moreover have "\<forall>i j. ring (nat N) i j = ring (nat N) j i" by (auto simp: ring_def)
    ultimately show ?thesis
      by (simp add: graph_coupling_length graph_coupling_laplacian)
  qed
  show ?thesis using G G1 G2 P C C1 L by blast
qed

theorem coupling_matrices_negated_laplacians_witness:
  "1 \<le> (4::int) \<and> 4 mod 2 = (0::int) \<and> 3 \<le> (4::int)
   \<and> global_coupling 4 = Inr [[- 3, 1, 1, 1], [1, - 3, 1, 1], [1, 1, - 3, 1], [1, 1, 1, - 3]]
   \<and> pairwise_coupling 4 = Inr [[- 1, 1, 0, 0], [1, - 1, 0, 0], [0, 0, - 1, 1], [0, 0, 1, - 1]]
   \<and> circular_array_coupling 4
        = Inr [[- 2, 1, 0, 1], [1, - 2, 1, 0], [0, 1, - 2, 1], [1, 0, 1, - 2]]
   \<and> negated_laplacian [[- 3, 1, 1, 1], [1, - 3, 1, 1], [1, 1, - 3, 1], [1, 1, 1, - 3]]
   \<and> negated_laplacian [[- 1, 1, 0, 0], [1, - 1, 0, 0], [0, 0, - 1, 1], [0, 0, 1, - 1]]
   \<and> negated_laplacian [[- 2, 1, 0, 1], [1, - 2, 1, 0], [0, 1, - 2, 1], [1, 0, 1, - 2]]"
proof -
  have h: "1 \<le> (4::int)" by simp
  have e: "4 mod 2 = (0::int)" by simp
  have u: "[0..<4] = [0, 1, 2, 3 :: nat]" by (simp add: eval_nat_numeral)
  have g: "graph_coupling (nat 4) all_coupled
      = [[- 3, 1, 1, 1], [1, - 3, 1, 1], [1, 1, - 3, 1], [1, 1, 1, - 3]]"
    by (simp add: graph_coupling_def all_coupled_def u)
  have p: "graph_coupling (nat 4) paired
      = [[- 1, 1, 0, 0], [1, - 1, 0, 0], [0, 0, - 1, 1], [0, 0, 1, - 1]]"
    by (simp add: graph_coupling_def paired_def u)
  have c: "graph_coupling (nat 4) (ring (nat 4))
      = [[- 2, 1, 0, 1], [1, - 2, 1, 0], [0, 1, - 2, 1], [1, 0, 1, - 2]]"
    by (simp add: graph_coupling_def ring_def u)
  note t = coupling_matrices_negated_laplacians [OF h]
  from t have "global_coupling 4 = Inr (graph_coupling (nat 4) all_coupled)" by blast
  moreover from t e have "pairwise_coupling 4 = Inr (graph_coupling (nat 4) paired)" by blast
  moreover from t have "circular_array_coupling 4 = Inr (graph_coupling (nat 4) (ring (nat 4)))"
    by blast
  moreover from t have "negated_laplacian (graph_coupling (nat 4) all_coupled)
      \<and> negated_laplacian (graph_coupling (nat 4) paired)
      \<and> negated_laplacian (graph_coupling (nat 4) (ring (nat 4)))" by blast
  ultimately show ?thesis using h e by (simp only: g p c) simp
qed

text \<open>
  Claim C10, as amended. \<^verbatim>\<open>pairwise_coupling(N)\<close> raises AssertionError exactly when \<open>N\<close>
  is odd. For an even \<open>N \<ge> 0\<close> it returns \<^verbatim>\<open>kron(I, [[-1, 1], [1, -1]])\<close> with \<open>I\<close> the
  identity of size \<open>N / 2\<close>, which is the \<open>N\<close> by \<open>N\<close> matrix of \<open>N / 2\<close> independent
  blocks. For an even \<open>N < 0\<close> the assertion passes and numpy refuses the negative
  dimension with ValueError.
\<close>

theorem pairwise_coupling_even:
  "(pairwise_coupling N = Inl AssertionError \<longleftrightarrow> N mod 2 \<noteq> 0)
   \<and> (N mod 2 = 0 \<and> 0 \<le> N \<longrightarrow>
        (\<exists>E. np_eye (N div 2) = Inr E \<and> length E = nat (N div 2)
           \<and> pairwise_coupling N = Inr (np_kron E [[- 1, 1], [1, - 1]]))
        \<and> pairwise_coupling N = Inr (pair_blocks (nat N))
        \<and> length (pair_blocks (nat N)) = nat N
        \<and> (\<forall>r<nat N. length (pair_blocks (nat N) ! r) = nat N))
   \<and> (N mod 2 = 0 \<and> N < 0 \<longrightarrow> pairwise_coupling N = Inl ValueError)"
proof (intro conjI impI)
  show "pairwise_coupling N = Inl AssertionError \<longleftrightarrow> N mod 2 \<noteq> 0"
    by (auto simp: pairwise_coupling_def np_eye_def)
next
  assume "N mod 2 = 0 \<and> 0 \<le> N"
  then show "\<exists>E. np_eye (N div 2) = Inr E \<and> length E = nat (N div 2)
           \<and> pairwise_coupling N = Inr (np_kron E [[- 1, 1], [1, - 1]])"
    by (simp add: pairwise_coupling_def np_eye_def)
next
  assume "N mod 2 = 0 \<and> 0 \<le> N"
  then show "pairwise_coupling N = Inr (pair_blocks (nat N))"
    by (simp add: pairwise_coupling_blocks)
next
  show "length (pair_blocks (nat N)) = nat N" by (simp add: pair_blocks_def)
next
  show "\<forall>r<nat N. length (pair_blocks (nat N) ! r) = nat N" by (simp add: pair_blocks_def)
next
  assume "N mod 2 = 0 \<and> N < 0"
  then show "pairwise_coupling N = Inl ValueError"
    by (auto simp: pairwise_coupling_def np_eye_def)
qed

theorem pairwise_coupling_even_witness:
  "pairwise_coupling 3 = Inl AssertionError
   \<and> 4 mod 2 = (0::int) \<and> 0 \<le> (4::int)
   \<and> pairwise_coupling 4 = Inr (pair_blocks 4)
   \<and> pair_blocks 4 = [[- 1, 1, 0, 0], [1, - 1, 0, 0], [0, 0, - 1, 1], [0, 0, 1, - 1]]"
proof -
  have "[0..<4] = [0, 1, 2, 3 :: nat]" by (simp add: eval_nat_numeral)
  then have "pair_blocks 4 = [[- 1, 1, 0, 0], [1, - 1, 0, 0], [0, 0, - 1, 1], [0, 0, 1, - 1]]"
    by (simp add: pair_blocks_def)
  then show ?thesis
    using pairwise_coupling_even [of 4] pairwise_coupling_even [of 3] by simp
qed

text \<open>
  Claim C10 as stated fails at \<open>N = -2\<close>: the number is even, the assertion passes, and
  the function raises ValueError instead of returning a matrix.
\<close>

theorem pairwise_coupling_negative_counterexample:
  "(- 2) mod 2 = (0::int) \<and> pairwise_coupling (- 2) = Inl ValueError"
  by (simp add: pairwise_coupling_def np_eye_def)

section \<open>Theorems: the runner\<close>

lemma random_state_result:
  "random_state body (cls, g) =
     (fst (body (runner_stream cls g)),
      cls\<lparr>tmp_state := Some g, prev_state := Some (snd (body (runner_stream cls g)))\<rparr>,
      g)"
  by (simp add: random_state_def runner_stream_def Let_def split: prod.splits)

lemma GPRunner_update_Inr:
  assumes "GPRunner_update ops ev = Inr ev'"
  shows "step_count ev' = step_count ev
     \<and> population ev' = assessment_runner ops (population ev)
     \<and> halloffame ev' = hof_update ops (halloffame ev) (population ev')
     \<and> algorithm ev' = algorithm ev
     \<and> (\<exists>c. logbook ev' = logbook ev @ [(step_count ev, c)])"
  using assms
  by (auto simp: GPRunner_update_def Let_def split: if_splits list.splits option.splits sum.splits)

lemma GPRunner_update_populated:
  assumes "assessment_runner ops (population ev) \<noteq> []"
  shows "\<exists>ev'. GPRunner_update ops ev = Inr ev'"
proof (cases "mstats ev")
  case None
  then show ?thesis using assms
    by (auto simp: GPRunner_update_def Let_def split: list.splits)
next
  case (Some m)
  then show ?thesis using assms
    by (auto simp: GPRunner_update_def Let_def split: list.splits)
qed

lemma GPRunner_init_Inr:
  assumes "GPRunner_init ops psize (self, g) = Inr (self', g')"
  shows "g' = g
     \<and> prev_state self' = Some (snd (create_population ops psize (runner_stream self g)))
     \<and> tmp_state self' = Some g
     \<and> (\<exists>ev. evolution self' = Some ev \<and> step_count ev = 0
           \<and> population ev =
               assessment_runner ops (fst (create_population ops psize (runner_stream self g)))
           \<and> halloffame ev = hof_update ops (pareto_front ops) (population ev)
           \<and> algorithm ev = algorithm_factory ops
           \<and> (\<exists>c. logbook ev = [(0, c)]))"
  using assms
  by (auto simp: GPRunner_init_def random_state_result split: sum.splits dest!: GPRunner_update_Inr)

lemma GPRunner_step_Inr:
  assumes "GPRunner_step ops (self, g) = Inr (self', g')"
  shows "g' = g
     \<and> tmp_state self' = Some g
     \<and> (\<exists>ev ev'. evolution self = Some ev \<and> evolution self' = Some ev'
           \<and> prev_state self' =
               Some (snd (evolve ops (algorithm ev) (population ev) (runner_stream self g)))
           \<and> step_count ev' = step_count ev + 1
           \<and> population ev' = assessment_runner ops
                 (fst (fst (evolve ops (algorithm ev) (population ev) (runner_stream self g))))
           \<and> halloffame ev' = hof_update ops (halloffame ev) (population ev')
           \<and> algorithm ev' = snd (fst (evolve ops (algorithm ev) (population ev) (runner_stream self g)))
           \<and> (\<exists>c. logbook ev' = logbook ev @ [(step_count ev', c)]))"
  using assms
  by (auto simp: GPRunner_step_def random_state_result
      split: sum.splits option.splits prod.splits dest!: GPRunner_update_Inr)

text \<open>
  Claim C2. Whenever \<^verbatim>\<open>GPRunner.init\<close> or \<^verbatim>\<open>GPRunner.step\<close> returns, the state of the
  global random generator is the state before the call. The population is created, or
  evolved, from the runner's own stream, and the state that operation leaves is saved in
  \<^verbatim>\<open>_prev_state\<close>, where the next call continues. The operations outside the random-state
  context (the assessment, the hall of fame, the statistics) are taken not to draw from the
  global generator.
\<close>

theorem runner_keeps_global_random_state:
  "(GPRunner_init ops psize (self, g) = Inr (self', g') \<longrightarrow>
      g' = g
      \<and> prev_state self' = Some (snd (create_population ops psize (runner_stream self g)))
      \<and> (\<exists>ev'. evolution self' = Some ev'
            \<and> population ev' =
                assessment_runner ops (fst (create_population ops psize (runner_stream self g)))))
   \<and> (GPRunner_step ops (self, g) = Inr (self', g') \<longrightarrow>
      g' = g
      \<and> (\<exists>ev ev'. evolution self = Some ev \<and> evolution self' = Some ev'
            \<and> prev_state self' =
                Some (snd (evolve ops (algorithm ev) (population ev) (runner_stream self g)))
            \<and> population ev' = assessment_runner ops
                 (fst (fst (evolve ops (algorithm ev) (population ev) (runner_stream self g))))))"
proof (rule conjI; rule impI)
  assume "GPRunner_init ops psize (self, g) = Inr (self', g')"
  from GPRunner_init_Inr [OF this]
  show "g' = g
      \<and> prev_state self' = Some (snd (create_population ops psize (runner_stream self g)))
      \<and> (\<exists>ev'. evolution self' = Some ev'
            \<and> population ev' =
                assessment_runner ops (fst (create_population ops psize (runner_stream self g))))"
    by blast
next
  assume "GPRunner_step ops (self, g) = Inr (self', g')"
  from GPRunner_step_Inr [OF this]
  show "g' = g
      \<and> (\<exists>ev ev'. evolution self = Some ev \<and> evolution self' = Some ev'
            \<and> prev_state self' =
                Some (snd (evolve ops (algorithm ev) (population ev) (runner_stream self g)))
            \<and> population ev' = assessment_runner ops
                 (fst (fst (evolve ops (algorithm ev) (population ev) (runner_stream self g)))))"
    by blast
qed

theorem runner_keeps_global_random_state_witness:
  "\<exists>s1 s2. GPRunner_init example_ops 1 (new_runner, 7) = Inr (s1, 7) \<and> prev_state s1 = Some 8
      \<and> GPRunner_step example_ops (example_runner, 7) = Inr (s2, 7) \<and> prev_state s2 = Some 5"
proof -
  have "\<exists>s g'. GPRunner_init example_ops 1 (new_runner, 7) = Inr (s, g')"
    by (simp add: GPRunner_init_def GPRunner_update_def random_state_result runner_stream_def
        example_ops_def new_runner_def create_stats_def)
  then obtain s1 g1 where h1: "GPRunner_init example_ops 1 (new_runner, 7) = Inr (s1, g1)"
    by blast
  have "\<exists>s g'. GPRunner_step example_ops (example_runner, 7) = Inr (s, g')"
    by (simp add: GPRunner_step_def GPRunner_update_def random_state_result runner_stream_def
        example_ops_def example_runner_def)
  then obtain s2 g2 where h2: "GPRunner_step example_ops (example_runner, 7) = Inr (s2, g2)"
    by blast
  have "g1 = 7 \<and> prev_state s1 = Some 8"
    using runner_keeps_global_random_state [of example_ops 1 new_runner 7 s1 g1] h1
    by (simp add: runner_stream_def example_ops_def new_runner_def)
  moreover have "g2 = 7 \<and> prev_state s2 = Some 5"
    using runner_keeps_global_random_state [of example_ops 1 example_runner 7 s2 g2] h2
    by (auto simp: runner_stream_def example_ops_def example_runner_def)
  ultimately show ?thesis using h1 h2 by blast
qed

text \<open>
  Claim C3. After \<^verbatim>\<open>GPRunner.init\<close> returns, \<^verbatim>\<open>step_count\<close> is 0, and every
  \<^verbatim>\<open>GPRunner.step\<close> that returns increases it by exactly 1. After each of these calls the
  population is the assessed population, the hall of fame has been updated with it, and the
  logbook has one more record, whose generation is the current \<^verbatim>\<open>step_count\<close>; so the
  logbook holds \<^verbatim>\<open>step_count + 1\<close> records after \<^verbatim>\<open>init\<close> and after every step.
\<close>

theorem runner_accounting:
  "(GPRunner_init ops psize (self, g) = Inr (self', g') \<longrightarrow>
      (\<exists>ev'. evolution self' = Some ev' \<and> step_count ev' = 0
         \<and> population ev' =
             assessment_runner ops (fst (create_population ops psize (runner_stream self g)))
         \<and> halloffame ev' = hof_update ops (pareto_front ops) (population ev')
         \<and> length (logbook ev') = 1 \<and> logbook_current ev'))
   \<and> (GPRunner_step ops (self, g) = Inr (self', g') \<longrightarrow>
      (\<exists>ev ev'. evolution self = Some ev \<and> evolution self' = Some ev'
         \<and> step_count ev' = step_count ev + 1
         \<and> population ev' = assessment_runner ops
              (fst (fst (evolve ops (algorithm ev) (population ev) (runner_stream self g))))
         \<and> halloffame ev' = hof_update ops (halloffame ev) (population ev')
         \<and> length (logbook ev') = length (logbook ev) + 1
         \<and> butlast (logbook ev') = logbook ev
         \<and> fst (last (logbook ev')) = step_count ev'
         \<and> (logbook_current ev \<longrightarrow> logbook_current ev')))"
proof (rule conjI; rule impI)
  assume "GPRunner_init ops psize (self, g) = Inr (self', g')"
  from GPRunner_init_Inr [OF this]
  show "\<exists>ev'. evolution self' = Some ev' \<and> step_count ev' = 0
         \<and> population ev' =
             assessment_runner ops (fst (create_population ops psize (runner_stream self g)))
         \<and> halloffame ev' = hof_update ops (pareto_front ops) (population ev')
         \<and> length (logbook ev') = 1 \<and> logbook_current ev'"
    by (auto simp: logbook_current_def)
next
  assume "GPRunner_step ops (self, g) = Inr (self', g')"
  from GPRunner_step_Inr [OF this]
  show "\<exists>ev ev'. evolution self = Some ev \<and> evolution self' = Some ev'
         \<and> step_count ev' = step_count ev + 1
         \<and> population ev' = assessment_runner ops
              (fst (fst (evolve ops (algorithm ev) (population ev) (runner_stream self g))))
         \<and> halloffame ev' = hof_update ops (halloffame ev) (population ev')
         \<and> length (logbook ev') = length (logbook ev) + 1
         \<and> butlast (logbook ev') = logbook ev
         \<and> fst (last (logbook ev')) = step_count ev'
         \<and> (logbook_current ev \<longrightarrow> logbook_current ev')"
    by (auto simp: logbook_current_def)
qed

theorem runner_accounting_witness:
  "\<exists>s1 s2 ev1 ev2.
      GPRunner_init example_ops 1 (new_runner, 7) = Inr (s1, 7)
      \<and> evolution s1 = Some ev1 \<and> step_count ev1 = 0 \<and> population ev1 = [7]
      \<and> halloffame ev1 = [7] \<and> length (logbook ev1) = 1 \<and> logbook_current ev1
      \<and> GPRunner_step example_ops (example_runner, 7) = Inr (s2, 7)
      \<and> evolution s2 = Some ev2 \<and> step_count ev2 = 1 \<and> population ev2 = [7]
      \<and> halloffame ev2 = [7] \<and> length (logbook ev2) = 2 \<and> logbook_current ev2"
proof -
  have "\<exists>s. GPRunner_init example_ops 1 (new_runner, 7) = Inr (s, 7)"
    by (simp add: GPRunner_init_def GPRunner_update_def random_state_result runner_stream_def
        example_ops_def new_runner_def create_stats_def)
  then obtain s1 where h1: "GPRunner_init example_ops 1 (new_runner, 7) = Inr (s1, 7)"
    by blast
  have "\<exists>s. GPRunner_step example_ops (example_runner, 7) = Inr (s, 7)"
    by (simp add: GPRunner_step_def GPRunner_update_def random_state_result runner_stream_def
        example_ops_def example_runner_def)
  then obtain s2 where h2: "GPRunner_step example_ops (example_runner, 7) = Inr (s2, 7)"
    by blast
  have c: "logbook_current \<lparr>halloffame = [3], logbook = [(0, 1::nat)], mstats = Some (MultiStatistics 1),
                        step_count = 0, population = [3::nat], algorithm = ()\<rparr>"
    by (simp add: logbook_current_def)
  have "\<exists>ev1. evolution s1 = Some ev1 \<and> step_count ev1 = 0 \<and> population ev1 = [7]
      \<and> halloffame ev1 = [7] \<and> length (logbook ev1) = 1 \<and> logbook_current ev1"
    using runner_accounting [of example_ops 1 new_runner 7 s1 7] h1
    by (auto simp: runner_stream_def example_ops_def new_runner_def)
  moreover have "\<exists>ev2. evolution s2 = Some ev2 \<and> step_count ev2 = 1 \<and> population ev2 = [7]
      \<and> halloffame ev2 = [7] \<and> length (logbook ev2) = 2 \<and> logbook_current ev2"
    using runner_accounting [of example_ops 1 example_runner 7 s2 7] h2 c
    by (auto simp: runner_stream_def example_ops_def example_runner_def)
  ultimately show ?thesis using h1 h2 by blast
qed

section \<open>Theorems: the application\<close>

lemma Application_update_Inr:
  assumes "Application_update ops (app, w) = Inr (app', w')"
  shows "args app' = args app \<and> gp_runner app' = gp_runner app
     \<and> checkpoint_file app' = checkpoint_file app \<and> initialized app' = initialized app
     \<and> (\<exists>ev. evolution (gp_runner app) = Some ev
           \<and> pareto_fronts app' = pareto_fronts app @ [hof_items ops (halloffame ev)])
     \<and> rng w' = rng w
     \<and> written w' = new_checkpoints (app', w') @ written w"
proof -
  obtain ev where ev: "evolution (gp_runner app) = Some ev"
    using assms by (auto simp: Application_update_def split: option.splits)
  show ?thesis
  proof (cases "checkpoint_file app")
    case None
    then show ?thesis using assms ev
      by (auto simp: Application_update_def valid_checkpointing_def new_checkpoints_def Let_def)
  next
    case (Some f)
    show ?thesis
    proof (cases "checkpoint_frequency (args app)")
      case (PyInt c)
      then show ?thesis using assms ev Some
        by (auto simp: Application_update_def valid_checkpointing_def new_checkpoints_def Let_def
            checkpoint_def checkpoint_due_def checkpoint_of_def generation_def safe_def
            split: if_splits)
    next
      case PyOther
      then show ?thesis using assms ev Some
        by (auto simp: Application_update_def valid_checkpointing_def new_checkpoints_def Let_def
            checkpoint_due_def)
    qed
  qed
qed

lemma Application_update_returns:
  assumes "evolution (gp_runner app) = Some ev"
    and "checkpoint_file app = None \<or> checkpoint_frequency (args app) \<noteq> PyInt 0"
  shows "\<exists>app' w'. Application_update ops (app, w) = Inr (app', w')"
proof (cases "checkpoint_frequency (args app)")
  case (PyInt c)
  then show ?thesis using assms
    by (cases "checkpoint_file app")
       (auto simp: Application_update_def valid_checkpointing_def Let_def checkpoint_def)
next
  case PyOther
  then show ?thesis using assms
    by (auto simp: Application_update_def valid_checkpointing_def Let_def)
qed

lemma Application_update_zero:
  assumes "evolution (gp_runner app) = Some ev"
    and "checkpoint_file app = Some f" and "checkpoint_frequency (args app) = PyInt 0"
  shows "Application_update ops (app, w) = Inl ZeroDivisionError"
  using assms by (simp add: Application_update_def valid_checkpointing_def Let_def)

lemma step_update_Inr:
  assumes "step_update ops (app, w) = Inr (app', w')"
  shows "args app' = args app \<and> checkpoint_file app' = checkpoint_file app
     \<and> initialized app' = initialized app \<and> rng w' = rng w
     \<and> (\<exists>n. generation app = Some n \<and> generation app' = Some (n + 1))
     \<and> written w' = new_checkpoints (app', w') @ written w"
proof -
  obtain runner g where s: "GPRunner_step ops (gp_runner app, rng w) = Inr (runner, g)"
    and u: "Application_update ops (app\<lparr>gp_runner := runner\<rparr>, w\<lparr>rng := g\<rparr>) = Inr (app', w')"
    using assms by (auto simp: step_update_def split: sum.splits)
  from GPRunner_step_Inr [OF s] Application_update_Inr [OF u]
  show ?thesis by (auto simp: generation_def)
qed

lemma init_update_Inr:
  assumes "init_update ops (app, w) = Inr (app', w')"
  shows "args app' = args app \<and> checkpoint_file app' = checkpoint_file app
     \<and> initialized app' = initialized app \<and> rng w' = random_seed ops (seed (args app))
     \<and> generation app' = Some 0
     \<and> written w' = new_checkpoints (app', w') @ written w"
proof -
  obtain runner g where
    s: "GPRunner_init ops (pop_size (args app)) (gp_runner app, random_seed ops (seed (args app)))
          = Inr (runner, g)"
    and u: "Application_update ops
         (app\<lparr>gp_runner := runner\<rparr>, w\<lparr>rng := random_seed ops (seed (args app)), rng := g\<rparr>)
          = Inr (app', w')"
    using assms by (auto simp: init_update_def Let_def split: sum.splits)
  from GPRunner_init_Inr [OF s] Application_update_Inr [OF u]
  show ?thesis by (auto simp: generation_def)
qed

lemma GPRunner_step_returns:
  assumes "evolution self = Some ev"
    and "assessment_runner ops
           (fst (fst (evolve ops (algorithm ev) (population ev) (runner_stream self g)))) \<noteq> []"
  shows "\<exists>self'. GPRunner_step ops (self, g) = Inr (self', g)"
proof -
  obtain ev' where "GPRunner_update ops
      (ev\<lparr>population := fst (fst (evolve ops (algorithm ev) (population ev) (runner_stream self g))),
          algorithm := snd (fst (evolve ops (algorithm ev) (population ev) (runner_stream self g))),
          step_count := step_count ev + 1\<rparr>) = Inr ev'"
    using GPRunner_update_populated [of ops
      "ev\<lparr>population := fst (fst (evolve ops (algorithm ev) (population ev) (runner_stream self g))),
          algorithm := snd (fst (evolve ops (algorithm ev) (population ev) (runner_stream self g))),
          step_count := step_count ev + 1\<rparr>"] assms(2)
    by auto
  then show ?thesis using assms(1)
    by (auto simp: GPRunner_step_def random_state_result split: prod.splits)
qed

lemma GPRunner_init_returns:
  assumes "assessment_runner ops (fst (create_population ops psize (runner_stream self g))) \<noteq> []"
  shows "\<exists>self'. GPRunner_init ops psize (self, g) = Inr (self', g)"
proof -
  obtain ev' where "GPRunner_update ops
      \<lparr>halloffame = pareto_front ops, logbook = [], mstats = None, step_count = 0,
       population = fst (create_population ops psize (runner_stream self g)),
       algorithm = algorithm_factory ops\<rparr> = Inr ev'"
    using GPRunner_update_populated [of ops
      "\<lparr>halloffame = pareto_front ops, logbook = [], mstats = None, step_count = 0,
       population = fst (create_population ops psize (runner_stream self g)),
       algorithm = algorithm_factory ops\<rparr>"] assms
    by auto
  then show ?thesis
    by (simp add: GPRunner_init_def random_state_result)
qed

lemma step_update_returns:
  assumes "keeps_populated ops" and "populated app" and "frequency_usable app"
  shows "\<exists>app' w'. step_update ops (app, w) = Inr (app', w') \<and> populated app'
     \<and> frequency_usable app'"
proof -
  obtain ev where ev: "evolution (gp_runner app) = Some ev" "population ev \<noteq> []"
    using assms(2) by (auto simp: populated_def)
  have "assessment_runner ops
      (fst (fst (evolve ops (algorithm ev) (population ev) (runner_stream (gp_runner app) (rng w))))) \<noteq> []"
    using assms(1) ev(2) by (simp add: keeps_populated_def)
  from GPRunner_step_returns [OF ev(1) this]
  obtain runner where s: "GPRunner_step ops (gp_runner app, rng w) = Inr (runner, rng w)" by blast
  from GPRunner_step_Inr [OF s] assms(1) ev
  obtain ev' where ev': "evolution runner = Some ev'" "population ev' \<noteq> []"
    by (auto simp: keeps_populated_def)
  have "frequency_usable (app\<lparr>gp_runner := runner\<rparr>)"
    using assms(3) by (simp add: frequency_usable_def)
  then obtain app' w' where
    u: "Application_update ops (app\<lparr>gp_runner := runner\<rparr>, w\<lparr>rng := rng w\<rparr>) = Inr (app', w')"
    using Application_update_returns [of "app\<lparr>gp_runner := runner\<rparr>" ev' ops "w\<lparr>rng := rng w\<rparr>"] ev'(1)
    by (auto simp: frequency_usable_def)
  from Application_update_Inr [OF u] ev' assms(3)
  have "populated app' \<and> frequency_usable app'"
    by (auto simp: populated_def frequency_usable_def)
  then show ?thesis using s u by (auto simp: step_update_def)
qed

lemma init_update_returns:
  assumes "keeps_populated ops" and "1 \<le> pop_size (args app)" and "frequency_usable app"
  shows "\<exists>app' w'. init_update ops (app, w) = Inr (app', w') \<and> populated app'
     \<and> frequency_usable app'"
proof -
  let ?g = "random_seed ops (seed (args app))"
  have "assessment_runner ops
      (fst (create_population ops (pop_size (args app)) (runner_stream (gp_runner app) ?g))) \<noteq> []"
    using assms(1,2) by (simp add: keeps_populated_def)
  from GPRunner_init_returns [OF this]
  obtain runner where s: "GPRunner_init ops (pop_size (args app)) (gp_runner app, ?g) = Inr (runner, ?g)"
    by blast
  from GPRunner_init_Inr [OF s] assms(1,2)
  obtain ev' where ev': "evolution runner = Some ev'" "population ev' \<noteq> []"
    by (auto simp: keeps_populated_def)
  have "frequency_usable (app\<lparr>gp_runner := runner\<rparr>)"
    using assms(3) by (simp add: frequency_usable_def)
  then obtain app' w' where
    u: "Application_update ops (app\<lparr>gp_runner := runner\<rparr>, w\<lparr>rng := ?g, rng := ?g\<rparr>) = Inr (app', w')"
    using Application_update_returns [of "app\<lparr>gp_runner := runner\<rparr>" ev' ops "w\<lparr>rng := ?g, rng := ?g\<rparr>"] ev'(1)
    by (auto simp: frequency_usable_def)
  from Application_update_Inr [OF u] ev' assms(3)
  have "populated app' \<and> frequency_usable app'"
    by (auto simp: populated_def frequency_usable_def)
  then show ?thesis using s u by (auto simp: init_update_def Let_def)
qed

lemma repeat_steps_returns:
  assumes "keeps_populated ops"
  shows "populated app \<Longrightarrow> frequency_usable app \<Longrightarrow> generation app = Some n \<Longrightarrow>
     \<exists>app' w'. repeat_steps ops m (app, w) = Inr (app', w') \<and> generation app' = Some (n + int m)"
proof (induction m arbitrary: app w n)
  case 0
  then show ?case by simp
next
  case (Suc m)
  from step_update_returns [OF assms Suc.prems(1,2)]
  obtain app1 w1 where s: "step_update ops (app, w) = Inr (app1, w1)" "populated app1"
    "frequency_usable app1" by blast
  from step_update_Inr [OF s(1)] Suc.prems(3) have "generation app1 = Some (n + 1)" by auto
  from Suc.IH [OF s(2,3) this, of w1] s(1) show ?case by (auto simp: algebra_simps)
qed

lemma run_loop_repeat:
  "generation app = Some n \<Longrightarrow> m = nat (num_generations (args app) - n) \<Longrightarrow>
   run_loop ops (\<lambda>s. False) (app, w) k =
     (case repeat_steps ops m (app, w) of
        Inl e \<Rightarrow> Inl e
      | Inr s \<Rightarrow> Inr (k + max 0 (num_generations (args app) - n), s))"
proof (induction m arbitrary: app w k n)
  case 0
  then obtain ev where "evolution (gp_runner app) = Some ev" "step_count ev = n"
    by (auto simp: generation_def)
  then show ?case using 0 by (subst run_loop.simps) auto
next
  case (Suc m)
  then obtain ev where ev: "evolution (gp_runner app) = Some ev" "step_count ev = n"
    by (auto simp: generation_def)
  have lt: "n < num_generations (args app)" using Suc.prems(2) by arith
  show ?case
  proof (cases "step_update ops (app, w)")
    case (Inl e)
    then show ?thesis using ev lt by (subst run_loop.simps) simp
  next
    case (Inr s)
    obtain app1 w1 where s: "s = (app1, w1)" by (cases s)
    from step_update_Inr [OF Inr [unfolded s]] Suc.prems(1)
    have a: "args app1 = args app" "generation app1 = Some (n + 1)" by auto
    have "m = nat (num_generations (args app1) - (n + 1))" using Suc.prems(2) unfolding a(1) by arith
    from Suc.IH [OF a(2) this, of w1 "k + 1"]
    show ?thesis using ev lt Inr s a(1)
      by (subst run_loop.simps) (auto split: sum.splits)
  qed
qed

lemma run_not_populated: "pop_size (args app) < 1 \<Longrightarrow> run ops bc (app, w) = Inr (0, app, w)"
  by (simp add: run_def)

lemma run_uninitialized:
  assumes "1 \<le> pop_size (args app)" and "\<not> initialized app"
  shows "run ops None (app, w) =
     (case init_update ops (app, w) of
        Inl e \<Rightarrow> Inl e
      | Inr s1 \<Rightarrow>
         (case repeat_steps ops (nat (num_generations (args app))) s1 of
            Inl e \<Rightarrow> Inl e
          | Inr s2 \<Rightarrow> Inr (max 0 (num_generations (args app)) + 1, s2)))"
proof (cases "init_update ops (app, w)")
  case (Inl e)
  then show ?thesis using assms by (simp add: run_def)
next
  case (Inr s1)
  obtain app1 w1 where s1: "s1 = (app1, w1)" by (cases s1)
  from init_update_Inr [OF Inr [unfolded s1]]
  have a: "args app1 = args app" "generation app1 = Some 0" by auto
  have "run_loop ops (\<lambda>s. False) (app1, w1) 1 =
     (case repeat_steps ops (nat (num_generations (args app1) - 0)) (app1, w1) of
        Inl e \<Rightarrow> Inl e
      | Inr s \<Rightarrow> Inr (1 + max 0 (num_generations (args app1) - 0), s))"
    using a(2) by (rule run_loop_repeat) simp
  then show ?thesis using assms Inr s1 a(1)
    by (simp add: run_def add.commute split: sum.splits)
qed

lemma run_returns:
  assumes "1 \<le> pop_size (args app)" and "\<not> initialized app"
    and "keeps_populated ops" and "frequency_usable app"
  shows "\<exists>app' w'. run ops None (app, w) = Inr (max 0 (num_generations (args app)) + 1, app', w')
     \<and> generation app' = Some (max 0 (num_generations (args app)))"
proof -
  from init_update_returns [OF assms(3,1,4), of w]
  obtain app1 w1 where i: "init_update ops (app, w) = Inr (app1, w1)" "populated app1"
    "frequency_usable app1" by blast
  from init_update_Inr [OF i(1)] have g: "generation app1 = Some 0" by simp
  from repeat_steps_returns [OF assms(3) i(2,3) g, of "nat (num_generations (args app))" w1]
  obtain app2 w2 where
    r: "repeat_steps ops (nat (num_generations (args app))) (app1, w1) = Inr (app2, w2)"
      "generation app2 = Some (0 + int (nat (num_generations (args app))))" by blast
  have "run ops None (app, w) = Inr (max 0 (num_generations (args app)) + 1, app2, w2)"
    using run_uninitialized [OF assms(1,2), of ops w] i(1) r(1) by simp
  moreover have "generation app2 = Some (max 0 (num_generations (args app)))"
    using r(2) by (simp add: max_def)
  ultimately show ?thesis by blast
qed

text \<open>
  Claim C1, as amended. If \<open>pop_size < 1\<close>, \<^verbatim>\<open>run\<close> returns 0 and changes nothing. For a
  configuration with \<open>pop_size \<ge> 1\<close>, \<^verbatim>\<open>run\<close> without a break condition on an application
  that is not initialised seeds the global generator with the seed of the options and
  initialises the runner, then performs \<open>max(num_generations, 0)\<close> evolution steps, each
  followed by the application's update, and an exception of any of them ends the run. When
  the outside operations keep the population populated and the modulo of the update is
  defined, the run returns \<open>max(num_generations, 0) + 1\<close> with \<^verbatim>\<open>step_count\<close> equal to
  \<open>max(num_generations, 0)\<close>.
\<close>

theorem run_iterations:
  "(pop_size (args app) < 1 \<longrightarrow> run ops bc (app, w) = Inr (0, app, w))
   \<and> (1 \<le> pop_size (args app) \<and> \<not> initialized app \<longrightarrow>
        run ops None (app, w) =
          (case GPRunner_init ops (pop_size (args app))
                  (gp_runner app, random_seed ops (seed (args app))) of
             Inl e \<Rightarrow> Inl e
           | Inr (runner, g) \<Rightarrow>
              (case Application_update ops (app\<lparr>gp_runner := runner\<rparr>, w\<lparr>rng := g\<rparr>) of
                 Inl e \<Rightarrow> Inl e
               | Inr s1 \<Rightarrow>
                  (case repeat_steps ops (nat (num_generations (args app))) s1 of
                     Inl e \<Rightarrow> Inl e
                   | Inr s2 \<Rightarrow> Inr (max 0 (num_generations (args app)) + 1, s2)))))
   \<and> (1 \<le> pop_size (args app) \<and> \<not> initialized app \<and> keeps_populated ops
        \<and> frequency_usable app \<longrightarrow>
        (\<exists>app' w'. run ops None (app, w) = Inr (max 0 (num_generations (args app)) + 1, app', w')
           \<and> generation app' = Some (max 0 (num_generations (args app)))))"
proof -
  have A: "pop_size (args app) < 1 \<longrightarrow> run ops bc (app, w) = Inr (0, app, w)"
    by (simp add: run_not_populated)
  have B: "run ops None (app, w) =
          (case GPRunner_init ops (pop_size (args app))
                  (gp_runner app, random_seed ops (seed (args app))) of
             Inl e \<Rightarrow> Inl e
           | Inr (runner, g) \<Rightarrow>
              (case Application_update ops (app\<lparr>gp_runner := runner\<rparr>, w\<lparr>rng := g\<rparr>) of
                 Inl e \<Rightarrow> Inl e
               | Inr s1 \<Rightarrow>
                  (case repeat_steps ops (nat (num_generations (args app))) s1 of
                     Inl e \<Rightarrow> Inl e
                   | Inr s2 \<Rightarrow> Inr (max 0 (num_generations (args app)) + 1, s2))))"
    if "1 \<le> pop_size (args app) \<and> \<not> initialized app"
    using that run_uninitialized [of app ops w]
    by (simp add: init_update_def Let_def split: sum.splits prod.splits)
  have C: "\<exists>app' w'. run ops None (app, w) = Inr (max 0 (num_generations (args app)) + 1, app', w')
           \<and> generation app' = Some (max 0 (num_generations (args app)))"
    if h: "1 \<le> pop_size (args app) \<and> \<not> initialized app \<and> keeps_populated ops
        \<and> frequency_usable app"
    using run_returns [of app ops w] h by blast
  show ?thesis using A B C by blast
qed

theorem run_iterations_witness:
  "(\<exists>app' w'. run example_ops None (example_app 1 2 (PyInt 1) (Some ''cp''), example_world)
        = Inr (3, app', w') \<and> generation app' = Some 2)
   \<and> run example_ops None (example_app 0 2 (PyInt 1) (Some ''cp''), example_world)
        = Inr (0, example_app 0 2 (PyInt 1) (Some ''cp''), example_world)"
proof -
  have k: "keeps_populated example_ops"
    by (simp add: keeps_populated_def example_ops_def)
  have h: "1 \<le> pop_size (args (example_app 1 2 (PyInt 1) (Some ''cp'')))
      \<and> \<not> initialized (example_app 1 2 (PyInt 1) (Some ''cp'')) \<and> keeps_populated example_ops
      \<and> frequency_usable (example_app 1 2 (PyInt 1) (Some ''cp''))"
    using k by (simp add: example_app_def Application_def frequency_usable_def)
  have h0: "pop_size (args (example_app 0 2 (PyInt 1) (Some ''cp''))) < 1"
    by (simp add: example_app_def Application_def)
  have n: "num_generations (args (example_app 1 2 (PyInt 1) (Some ''cp''))) = 2"
    by (simp add: example_app_def Application_def)
  have "\<exists>app' w'. run example_ops None (example_app 1 2 (PyInt 1) (Some ''cp''), example_world)
        = Inr (max 0 (num_generations (args (example_app 1 2 (PyInt 1) (Some ''cp'')))) + 1, app', w')
      \<and> generation app' = Some (max 0 (num_generations (args (example_app 1 2 (PyInt 1) (Some ''cp'')))))"
    using run_iterations [of "example_app 1 2 (PyInt 1) (Some ''cp'')" example_ops None example_world] h
    by blast
  then have "\<exists>app' w'. run example_ops None (example_app 1 2 (PyInt 1) (Some ''cp''), example_world)
        = Inr (3, app', w') \<and> generation app' = Some 2"
    by (simp add: n)
  moreover have "run example_ops None (example_app 0 2 (PyInt 1) (Some ''cp''), example_world)
        = Inr (0, example_app 0 2 (PyInt 1) (Some ''cp''), example_world)"
    using run_iterations [of "example_app 0 2 (PyInt 1) (Some ''cp'')" example_ops None example_world] h0
    by blast
  ultimately show ?thesis by blast
qed

text \<open>
  Claim C1 as stated fails for \<open>num_generations = -1\<close>: the run initialises the runner,
  performs no step and returns 1, where \<open>num_generations + 1\<close> is 0.
\<close>

theorem run_negative_generations_counterexample:
  "1 \<le> pop_size (args (example_app 1 (- 1) PyOther None))
   \<and> \<not> initialized (example_app 1 (- 1) PyOther None)
   \<and> num_generations (args (example_app 1 (- 1) PyOther None)) + 1 = 0
   \<and> iterations (run example_ops None (example_app 1 (- 1) PyOther None, example_world)) = Inr 1"
  by (simp add: iterations_def run_def init_update_def GPRunner_init_def GPRunner_update_def
      Application_update_def valid_checkpointing_def random_state_result runner_stream_def
      run_loop.simps example_app_def Application_def example_ops_def new_runner_def
      example_world_def create_stats_def Let_def)

section \<open>Theorems: checkpoints\<close>

lemma load_safe: "load f (safe f kwargs w) = Inr kwargs"
  by (simp add: load_def safe_def)

lemma checkpoint_written:
  assumes "checkpoint_file app = Some f"
  shows "checkpoint (app, w) = Inr (safe f (checkpoint_of (app, w)) w)"
  using assms by (simp add: checkpoint_def checkpoint_of_def)

lemma from_checkpoint_file:
  assumes "load f w = Inr (checkpoint_of (app, w0))"
  shows "from_checkpoint f w =
     Inr (\<lparr>args = args app, gp_runner = gp_runner app, checkpoint_file = Some f,
           pareto_fronts = pareto_fronts app, initialized = True\<rparr>, w\<lparr>rng := rng w0\<rparr>)"
  using assms by (simp add: from_checkpoint_def checkpoint_of_def Application_def)

lemma run_initialized:
  assumes "initialized app"
  shows "run ops bc (app, w) =
     (if pop_size (args app) < 1 then Inr (0, app, w)
      else run_loop ops (case bc of None \<Rightarrow> (\<lambda>s. False) | Some c \<Rightarrow> c) (app, w) 0)"
  using assms by (simp add: run_def)

text \<open>
  Claim C4. Checkpointing round-trips: \<^verbatim>\<open>load(f)\<close> after \<^verbatim>\<open>safe(f, **kwargs)\<close> returns
  the dictionary \<open>kwargs\<close>. Consequently \<^verbatim>\<open>from_checkpoint(f)\<close>, after the application has
  written its checkpoint to \<open>f\<close> and whatever the global random state has become, gives an
  application with the saved options, runner and Pareto fronts, restores the saved random
  state, and marks the application initialised, so that a later \<^verbatim>\<open>run\<close> goes to the loop of
  evolution steps without initialising the runner again.
\<close>

theorem checkpoint_round_trip:
  "load f (safe f kwargs w0) = Inr kwargs
   \<and> (checkpoint_file app = Some f \<longrightarrow>
        (\<exists>w1. checkpoint (app, w) = Inr w1
           \<and> load f w1 = Inr (checkpoint_of (app, w))
           \<and> (\<forall>g. \<exists>app'. from_checkpoint f (w1\<lparr>rng := g\<rparr>) = Inr (app', w1\<lparr>rng := rng w\<rparr>)
                 \<and> args app' = args app \<and> gp_runner app' = gp_runner app
                 \<and> pareto_fronts app' = pareto_fronts app \<and> checkpoint_file app' = Some f
                 \<and> initialized app'
                 \<and> (\<forall>ops bc w2. run ops bc (app', w2) =
                      (if pop_size (args app') < 1 then Inr (0, app', w2)
                       else run_loop ops (case bc of None \<Rightarrow> (\<lambda>s. False) | Some c \<Rightarrow> c)
                              (app', w2) 0)))))"
proof (rule conjI [OF load_safe], rule impI)
  assume f: "checkpoint_file app = Some f"
  define w1 where "w1 = safe f (checkpoint_of (app, w)) w"
  have c: "checkpoint (app, w) = Inr w1"
    using f by (simp add: checkpoint_written w1_def)
  have l: "load f w1 = Inr (checkpoint_of (app, w))"
    by (simp add: w1_def load_safe)
  have "\<exists>app'. from_checkpoint f (w1\<lparr>rng := g\<rparr>) = Inr (app', w1\<lparr>rng := rng w\<rparr>)
                 \<and> args app' = args app \<and> gp_runner app' = gp_runner app
                 \<and> pareto_fronts app' = pareto_fronts app \<and> checkpoint_file app' = Some f
                 \<and> initialized app'
                 \<and> (\<forall>ops bc w2. run ops bc (app', w2) =
                      (if pop_size (args app') < 1 then Inr (0, app', w2)
                       else run_loop ops (case bc of None \<Rightarrow> (\<lambda>s. False) | Some c \<Rightarrow> c)
                              (app', w2) 0))" for g
  proof -
    have "load f (w1\<lparr>rng := g\<rparr>) = Inr (checkpoint_of (app, w))"
      using l by (simp add: load_def)
    from from_checkpoint_file [OF this]
    show ?thesis by (simp add: run_initialized)
  qed
  then show "\<exists>w1. checkpoint (app, w) = Inr w1
           \<and> load f w1 = Inr (checkpoint_of (app, w))
           \<and> (\<forall>g. \<exists>app'. from_checkpoint f (w1\<lparr>rng := g\<rparr>) = Inr (app', w1\<lparr>rng := rng w\<rparr>)
                 \<and> args app' = args app \<and> gp_runner app' = gp_runner app
                 \<and> pareto_fronts app' = pareto_fronts app \<and> checkpoint_file app' = Some f
                 \<and> initialized app'
                 \<and> (\<forall>ops bc w2. run ops bc (app', w2) =
                      (if pop_size (args app') < 1 then Inr (0, app', w2)
                       else run_loop ops (case bc of None \<Rightarrow> (\<lambda>s. False) | Some c \<Rightarrow> c)
                              (app', w2) 0)))"
    using c l by blast
qed

theorem checkpoint_round_trip_witness:
  "load ''cp'' (safe ''cp'' [''k'' \<mapsto> (1::nat)] \<lparr>rng = (0::nat), written = []\<rparr>) = Inr [''k'' \<mapsto> 1]
   \<and> checkpoint_file (example_app 1 2 (PyInt 1) (Some ''cp'')) = Some ''cp''
   \<and> (\<exists>w1 app'. checkpoint (example_app 1 2 (PyInt 1) (Some ''cp''), example_world) = Inr w1
         \<and> from_checkpoint ''cp'' (w1\<lparr>rng := 9\<rparr>) = Inr (app', w1\<lparr>rng := rng example_world\<rparr>)
         \<and> args app' = args (example_app 1 2 (PyInt 1) (Some ''cp''))
         \<and> gp_runner app' = gp_runner (example_app 1 2 (PyInt 1) (Some ''cp''))
         \<and> pareto_fronts app' = pareto_fronts (example_app 1 2 (PyInt 1) (Some ''cp''))
         \<and> initialized app')"
proof -
  have h: "checkpoint_file (example_app 1 2 (PyInt 1) (Some ''cp'')) = Some ''cp''"
    by (simp add: example_app_def Application_def)
  note t = checkpoint_round_trip [of "''cp''" "[''k'' \<mapsto> (1::nat)]" "\<lparr>rng = (0::nat), written = []\<rparr>"
      "example_app 1 2 (PyInt 1) (Some ''cp'')" example_world]
  from t have a: "load ''cp'' (safe ''cp'' [''k'' \<mapsto> (1::nat)] \<lparr>rng = (0::nat), written = []\<rparr>)
      = Inr [''k'' \<mapsto> 1]" by blast
  from t h obtain w1 where w1: "checkpoint (example_app 1 2 (PyInt 1) (Some ''cp''), example_world) = Inr w1"
    "\<forall>g. \<exists>app'. from_checkpoint ''cp'' (w1\<lparr>rng := g\<rparr>) = Inr (app', w1\<lparr>rng := rng example_world\<rparr>)
         \<and> args app' = args (example_app 1 2 (PyInt 1) (Some ''cp''))
         \<and> gp_runner app' = gp_runner (example_app 1 2 (PyInt 1) (Some ''cp''))
         \<and> pareto_fronts app' = pareto_fronts (example_app 1 2 (PyInt 1) (Some ''cp''))
         \<and> checkpoint_file app' = Some ''cp''
         \<and> initialized app'
         \<and> (\<forall>ops bc w2. run ops bc (app', w2) =
                      (if pop_size (args app') < 1 then Inr (0, app', w2)
                       else run_loop ops (case bc of None \<Rightarrow> (\<lambda>s. False) | Some c \<Rightarrow> c)
                              (app', w2) 0))"
    by blast
  from w1(2) [rule_format, of 9] w1(1) a h show ?thesis by blast
qed

lemma length_new_checkpoints: "length (new_checkpoints s) \<le> 1"
  by (cases s) (simp add: new_checkpoints_def split: option.splits)

lemma new_checkpoints_invalid:
  "\<not> valid_checkpointing app \<Longrightarrow> new_checkpoints (app, w) = []"
  by (auto simp: new_checkpoints_def valid_checkpointing_def checkpoint_due_def
      split: option.splits pyobject.splits)

lemma new_checkpoints_every:
  assumes "checkpoint_file app = Some f" and "checkpoint_frequency (args app) = PyInt 1"
    and "generation app = Some n"
  shows "new_checkpoints (app, w) = [(f, checkpoint_of (app, w))]"
  using assms by (simp add: new_checkpoints_def checkpoint_due_def)

lemma run_loop_written:
  "run_loop ops bc (app, w) k = Inr (k', app', w') \<Longrightarrow>
   k \<le> k' \<and> args app' = args app \<and> checkpoint_file app' = checkpoint_file app
   \<and> (\<exists>cps. written w' = cps @ written w \<and> int (length cps) \<le> k' - k
         \<and> (\<not> valid_checkpointing app \<longrightarrow> cps = [])
         \<and> (checkpoint_file app \<noteq> None \<and> checkpoint_frequency (args app) = PyInt 1
              \<longrightarrow> int (length cps) = k' - k))"
proof (induction ops bc "(app, w)" k arbitrary: app w rule: run_loop.induct)
  case (1 ops bc app w k)
  from "1.prems" obtain ev where ev: "evolution (gp_runner app) = Some ev"
    by (subst (asm) run_loop.simps) (auto split: option.splits)
  show ?case
  proof (cases "step_count ev < num_generations (args app) \<and> \<not> bc (app, w)")
    case False
    then show ?thesis using "1.prems" ev
      by (subst (asm) run_loop.simps) auto
  next
    case True
    then obtain app1 w1 where s: "step_update ops (app, w) = Inr (app1, w1)"
      and r: "run_loop ops bc (app1, w1) (k + 1) = Inr (k', app', w')"
      using "1.prems" ev
      by (subst (asm) run_loop.simps) (auto split: sum.splits)
    from step_update_Inr [OF s]
    have a: "args app1 = args app" "checkpoint_file app1 = checkpoint_file app"
      "written w1 = new_checkpoints (app1, w1) @ written w"
      and g: "\<exists>n. generation app1 = Some n" by auto
    have v: "valid_checkpointing app1 = valid_checkpointing app"
      using a by (simp add: valid_checkpointing_def)
    from "1.hyps" [OF ev True s refl r]
    obtain cps where c: "k + 1 \<le> k'" "args app' = args app1"
      "checkpoint_file app' = checkpoint_file app1"
      "written w' = cps @ written w1" "int (length cps) \<le> k' - (k + 1)"
      "\<not> valid_checkpointing app1 \<longrightarrow> cps = []"
      "checkpoint_file app1 \<noteq> None \<and> checkpoint_frequency (args app1) = PyInt 1
         \<longrightarrow> int (length cps) = k' - (k + 1)"
      by blast
    let ?cps = "cps @ new_checkpoints (app1, w1)"
    have "written w' = ?cps @ written w" using c(4) a(3) by simp
    moreover have "int (length ?cps) \<le> k' - k"
      using c(5) length_new_checkpoints [of "(app1, w1)"] by simp
    moreover have "\<not> valid_checkpointing app \<longrightarrow> ?cps = []"
      using c(6) v new_checkpoints_invalid [of app1 w1] by simp
    moreover have "checkpoint_file app \<noteq> None \<and> checkpoint_frequency (args app) = PyInt 1
         \<longrightarrow> int (length ?cps) = k' - k"
    proof
      assume h: "checkpoint_file app \<noteq> None \<and> checkpoint_frequency (args app) = PyInt 1"
      then obtain f where f: "checkpoint_file app1 = Some f" using a(2) by auto
      from g obtain n where n: "generation app1 = Some n" by blast
      have "new_checkpoints (app1, w1) = [(f, checkpoint_of (app1, w1))]"
        using new_checkpoints_every [OF f _ n] h a(1) by simp
      then show "int (length ?cps) = k' - k" using c(7) h a(1,2) by simp
    qed
    ultimately show ?thesis using c(1,2,3) a(1,2) by auto
  qed
qed

lemma run_written:
  assumes "run ops bc (app, w) = Inr (k, app', w')"
  shows "\<exists>cps. written w' = cps @ written w \<and> int (length cps) \<le> k
         \<and> (\<not> valid_checkpointing app \<longrightarrow> cps = [])
         \<and> (checkpoint_file app \<noteq> None \<and> checkpoint_frequency (args app) = PyInt 1
              \<longrightarrow> int (length cps) = k)"
proof (cases "pop_size (args app) < 1")
  case True
  then show ?thesis using assms by (auto simp: run_def)
next
  case False
  define c where "c = (case bc of None \<Rightarrow> (\<lambda>s. False) | Some f \<Rightarrow> f)"
  show ?thesis
  proof (cases "initialized app")
    case True
    then have "run_loop ops c (app, w) 0 = Inr (k, app', w')"
      using assms False by (simp add: run_def c_def)
    from run_loop_written [OF this] show ?thesis by auto
  next
    case ni: False
    then obtain app1 w1 where i: "init_update ops (app, w) = Inr (app1, w1)"
      and r: "run_loop ops c (app1, w1) 1 = Inr (k, app', w')"
      using assms False by (auto simp: run_def c_def split: sum.splits)
    from init_update_Inr [OF i]
    have a: "args app1 = args app" "checkpoint_file app1 = checkpoint_file app"
      "written w1 = new_checkpoints (app1, w1) @ written w"
      "generation app1 = Some 0" by auto
    have v: "valid_checkpointing app1 = valid_checkpointing app"
      using a by (simp add: valid_checkpointing_def)
    from run_loop_written [OF r]
    obtain cps where c: "1 \<le> k"
      "written w' = cps @ written w1" "int (length cps) \<le> k - 1"
      "\<not> valid_checkpointing app1 \<longrightarrow> cps = []"
      "checkpoint_file app1 \<noteq> None \<and> checkpoint_frequency (args app1) = PyInt 1
         \<longrightarrow> int (length cps) = k - 1"
      by blast
    let ?cps = "cps @ new_checkpoints (app1, w1)"
    have "written w' = ?cps @ written w" using c(2) a(3) by simp
    moreover have "int (length ?cps) \<le> k"
      using c(3) length_new_checkpoints [of "(app1, w1)"] by simp
    moreover have "\<not> valid_checkpointing app \<longrightarrow> ?cps = []"
      using c(4) v new_checkpoints_invalid [of app1 w1] by simp
    moreover have "checkpoint_file app \<noteq> None \<and> checkpoint_frequency (args app) = PyInt 1
         \<longrightarrow> int (length ?cps) = k"
    proof
      assume h: "checkpoint_file app \<noteq> None \<and> checkpoint_frequency (args app) = PyInt 1"
      then obtain f where f: "checkpoint_file app1 = Some f" using a(2) by auto
      have "new_checkpoints (app1, w1) = [(f, checkpoint_of (app1, w1))]"
        using new_checkpoints_every [OF f _ a(4)] h a(1) by simp
      then show "int (length ?cps) = k" using c(5) h a(1,2) by simp
    qed
    ultimately show ?thesis by blast
  qed
qed

lemma Application_update_due:
  "(\<exists>app1 w1. Application_update ops (app, w) = Inr (app1, w1) \<and> written w1 \<noteq> written w)
     \<longleftrightarrow> checkpoint_due app"
proof (cases "evolution (gp_runner app)")
  case None
  then show ?thesis
    by (simp add: Application_update_def checkpoint_due_def generation_def split: pyobject.splits)
next
  case (Some ev)
  show ?thesis
  proof (cases "checkpoint_file app")
    case None
    then show ?thesis using Some
      by (auto simp: Application_update_def valid_checkpointing_def checkpoint_due_def Let_def)
  next
    case f: (Some f)
    show ?thesis
    proof (cases "checkpoint_frequency (args app)")
      case (PyInt c)
      then show ?thesis using Some f
        by (auto simp: Application_update_def valid_checkpointing_def checkpoint_due_def
            generation_def checkpoint_def safe_def Let_def split: if_splits)
    next
      case PyOther
      then show ?thesis using Some f
        by (auto simp: Application_update_def valid_checkpointing_def checkpoint_due_def
            generation_def Let_def)
    qed
  qed
qed

lemma checkpoint_due_divides:
  "checkpoint_due app \<longleftrightarrow>
     checkpoint_file app \<noteq> None
     \<and> (\<exists>c n. checkpoint_frequency (args app) = PyInt c \<and> generation app = Some n
            \<and> c \<noteq> 0 \<and> c dvd n)"
  by (auto simp: checkpoint_due_def dvd_eq_mod_eq_0 split: pyobject.splits option.splits if_splits)

text \<open>
  Claim C5. During a run, an update of the application writes a checkpoint file if and only
  if there is a checkpoint file, the frequency is an integer, and \<^verbatim>\<open>step_count\<close> is
  divisible by it (the source's test \<^verbatim>\<open>step_count % checkpoint_frequency == 0\<close> is true,
  which for a frequency other than 0 is divisibility). The checkpoint written is the
  checkpoint of the application in its world. Nothing else writes: what the initialisation
  and a step of a run write is what their update writes, a run writes at most one
  checkpoint per iteration and none without valid checkpointing, and with the default
  frequency 1 it writes one after the initialisation and one after every step.
\<close>

theorem checkpoint_at_update:
  "((\<exists>app1 w1. Application_update ops (app, w) = Inr (app1, w1) \<and> written w1 \<noteq> written w)
      \<longleftrightarrow> checkpoint_due app)
   \<and> (Application_update ops (app, w) = Inr (app', w') \<longrightarrow>
        args app' = args app \<and> gp_runner app' = gp_runner app
        \<and> checkpoint_file app' = checkpoint_file app
        \<and> checkpoint_due app' = checkpoint_due app
        \<and> written w' = new_checkpoints (app', w') @ written w)
   \<and> (init_update ops (app, w) = Inr (app', w') \<longrightarrow>
        written w' = new_checkpoints (app', w') @ written w)
   \<and> (step_update ops (app, w) = Inr (app', w') \<longrightarrow>
        written w' = new_checkpoints (app', w') @ written w)
   \<and> (run ops bc (app, w) = Inr (k, app', w') \<longrightarrow>
        (\<exists>cps. written w' = cps @ written w \<and> int (length cps) \<le> k
           \<and> (\<not> valid_checkpointing app \<longrightarrow> cps = [])
           \<and> (checkpoint_file app \<noteq> None \<and> checkpoint_frequency (args app) = PyInt 1
                \<longrightarrow> int (length cps) = k)))
   \<and> (checkpoint_due app \<longleftrightarrow>
        checkpoint_file app \<noteq> None
        \<and> (\<exists>c n. checkpoint_frequency (args app) = PyInt c \<and> generation app = Some n
               \<and> c \<noteq> 0 \<and> c dvd n))"
proof -
  have F: "checkpoint_due app \<longleftrightarrow>
        checkpoint_file app \<noteq> None
        \<and> (\<exists>c n. checkpoint_frequency (args app) = PyInt c \<and> generation app = Some n
               \<and> c \<noteq> 0 \<and> c dvd n)"
    by (rule checkpoint_due_divides)
  have A: "(\<exists>app1 w1. Application_update ops (app, w) = Inr (app1, w1) \<and> written w1 \<noteq> written w)
      \<longleftrightarrow> checkpoint_due app"
    by (rule Application_update_due)
  have B: "args app' = args app \<and> gp_runner app' = gp_runner app
        \<and> checkpoint_file app' = checkpoint_file app
        \<and> checkpoint_due app' = checkpoint_due app
        \<and> written w' = new_checkpoints (app', w') @ written w"
    if u: "Application_update ops (app, w) = Inr (app', w')"
  proof -
    from Application_update_Inr [OF u]
    have a: "args app' = args app" "gp_runner app' = gp_runner app"
      "checkpoint_file app' = checkpoint_file app"
      "written w' = new_checkpoints (app', w') @ written w" by auto
    have "checkpoint_due app' = checkpoint_due app"
      using a by (simp add: checkpoint_due_def generation_def)
    then show ?thesis using a by blast
  qed
  have C: "written w' = new_checkpoints (app', w') @ written w"
    if "init_update ops (app, w) = Inr (app', w')"
    using init_update_Inr [OF that] by blast
  have D: "written w' = new_checkpoints (app', w') @ written w"
    if "step_update ops (app, w) = Inr (app', w')"
    using step_update_Inr [OF that] by blast
  have E: "\<exists>cps. written w' = cps @ written w \<and> int (length cps) \<le> k
         \<and> (\<not> valid_checkpointing app \<longrightarrow> cps = [])
         \<and> (checkpoint_file app \<noteq> None \<and> checkpoint_frequency (args app) = PyInt 1
              \<longrightarrow> int (length cps) = k)"
    if "run ops bc (app, w) = Inr (k, app', w')"
    using run_written [OF that] .
  show ?thesis using A B C D E F by blast
qed


theorem checkpoint_at_update_witness:
  "(\<exists>app1 w1. Application_update example_ops (resumed_app (PyInt 1) (Some ''cp''), example_world)
        = Inr (app1, w1) \<and> written w1 = [(''cp'', checkpoint_of (app1, w1))])
   \<and> (\<exists>app1 w1. Application_update example_ops (resumed_app (PyInt 1) None, example_world)
        = Inr (app1, w1) \<and> written w1 = [])
   \<and> \<not> (\<exists>app1 w1. Application_update example_ops (resumed_app (PyInt 0) (Some ''cp''), example_world)
        = Inr (app1, w1) \<and> written w1 \<noteq> written example_world)
   \<and> (\<exists>app' w'. run example_ops None (example_app 1 2 (PyInt 1) (Some ''cp''), example_world)
        = Inr (3, app', w') \<and> length (written w') = 3)"
proof -
  have w: "written example_world = []" by (simp add: example_world_def)
  have d1: "checkpoint_due (resumed_app (PyInt 1) (Some ''cp''))"
    by (simp add: checkpoint_due_def generation_def resumed_app_def Application_def
        example_runner_def)
  have d2: "\<not> checkpoint_due (resumed_app (PyInt 1) None)"
    by (simp add: checkpoint_due_def resumed_app_def Application_def)
  have d0: "\<not> checkpoint_due (resumed_app (PyInt 0) (Some ''cp''))"
    by (simp add: checkpoint_due_def generation_def resumed_app_def Application_def
        example_runner_def)
  have "\<exists>app1 w1. Application_update example_ops (resumed_app (PyInt 1) (Some ''cp''), example_world)
        = Inr (app1, w1) \<and> written w1 = [(''cp'', checkpoint_of (app1, w1))]"
  proof -
    from checkpoint_at_update [of example_ops "resumed_app (PyInt 1) (Some ''cp'')" example_world] d1
    obtain app1 w1 where u:
      "Application_update example_ops (resumed_app (PyInt 1) (Some ''cp''), example_world) = Inr (app1, w1)"
      by blast
    from checkpoint_at_update [of example_ops "resumed_app (PyInt 1) (Some ''cp'')" example_world
        app1 w1] u
    have "checkpoint_file app1 = checkpoint_file (resumed_app (PyInt 1) (Some ''cp''))"
      "checkpoint_due app1 = checkpoint_due (resumed_app (PyInt 1) (Some ''cp''))"
      "written w1 = new_checkpoints (app1, w1) @ written example_world"
      by blast+
    then have "written w1 = [(''cp'', checkpoint_of (app1, w1))]"
      using d1 w by (simp add: new_checkpoints_def resumed_app_def Application_def)
    then show ?thesis using u by blast
  qed
  moreover have "\<exists>app1 w1. Application_update example_ops (resumed_app (PyInt 1) None, example_world)
        = Inr (app1, w1) \<and> written w1 = []"
  proof -
    have "\<exists>app1 w1. Application_update example_ops (resumed_app (PyInt 1) None, example_world)
        = Inr (app1, w1)"
      by (rule Application_update_returns [where ev = "\<lparr>halloffame = [3], logbook = [(0, 1)],
            mstats = Some (MultiStatistics 1), step_count = 0, population = [3], algorithm = ()\<rparr>"])
         (simp_all add: resumed_app_def Application_def example_runner_def)
    then obtain app1 w1 where u:
      "Application_update example_ops (resumed_app (PyInt 1) None, example_world) = Inr (app1, w1)"
      by blast
    from checkpoint_at_update [of example_ops "resumed_app (PyInt 1) None" example_world] d2 u
    have "written w1 = written example_world" by blast
    then show ?thesis using u w by auto
  qed
  moreover have "\<not> (\<exists>app1 w1. Application_update example_ops
        (resumed_app (PyInt 0) (Some ''cp''), example_world) = Inr (app1, w1)
        \<and> written w1 \<noteq> written example_world)"
    using checkpoint_at_update [of example_ops "resumed_app (PyInt 0) (Some ''cp'')" example_world] d0
    by blast
  moreover have "\<exists>app' w'. run example_ops None (example_app 1 2 (PyInt 1) (Some ''cp''), example_world)
        = Inr (3, app', w') \<and> length (written w') = 3"
  proof -
    have k: "keeps_populated example_ops"
      by (simp add: keeps_populated_def example_ops_def)
    have "\<exists>app' w'. run example_ops None (example_app 1 2 (PyInt 1) (Some ''cp''), example_world)
        = Inr (max 0 (num_generations (args (example_app 1 2 (PyInt 1) (Some ''cp'')))) + 1, app', w')
      \<and> generation app' = Some (max 0 (num_generations (args (example_app 1 2 (PyInt 1) (Some ''cp'')))))"
      by (rule run_returns [OF _ _ k])
         (simp_all add: example_app_def Application_def frequency_usable_def)
    then obtain app' w' where
      r: "run example_ops None (example_app 1 2 (PyInt 1) (Some ''cp''), example_world) = Inr (3, app', w')"
      by (auto simp: example_app_def Application_def)
    have f: "checkpoint_file (example_app 1 2 (PyInt 1) (Some ''cp'')) \<noteq> None
        \<and> checkpoint_frequency (args (example_app 1 2 (PyInt 1) (Some ''cp''))) = PyInt 1"
      by (simp add: example_app_def Application_def)
    from checkpoint_at_update [of example_ops "example_app 1 2 (PyInt 1) (Some ''cp'')"
        example_world app' w' None 3] r f
    obtain cps where "written w' = cps @ written example_world" "int (length cps) = 3" by blast
    then have "length (written w') = 3" using w by simp
    then show ?thesis using r by blast
  qed
  ultimately show ?thesis by blast
qed

end
